theory Spec2Isabelle
  imports Main "HOL-Library.Char_ord" "HOL-Library.List_Lexorder"
begin

section \<open>Python strings\<close>

text \<open>
  A Python \<open>str\<close> is modelled as a \<open>string\<close>; a \<open>char\<close> stands for a code point
  below 256, so \<open>length\<close> counts what Python's \<open>len\<close> counts on such text.
\<close>

definition nl :: char where
  "nl = CHR 0x0A"

definition cr :: char where
  "cr = CHR 0x0D"

text \<open>\<open>str.isspace\<close> on one character, which is also what \<open>\s\<close> matches in a \<open>str\<close> pattern.\<close>

definition is_space :: "char \<Rightarrow> bool" where
  "is_space c = (c \<in> set [CHR 0x09, CHR 0x0A, CHR 0x0B, CHR 0x0C, CHR 0x0D,
                            CHR 0x1C, CHR 0x1D, CHR 0x1E, CHR 0x1F, CHR 0x20, CHR 0x85, CHR 0xA0])"

text \<open>\<open>s.startswith(p)\<close>\<close>

definition startswith :: "string \<Rightarrow> string \<Rightarrow> bool" where
  "startswith s p = (take (length p) s = p)"

text \<open>\<open>sep.join(xs)\<close>\<close>

fun join :: "string \<Rightarrow> string list \<Rightarrow> string" where
  "join sep [] = []"
| "join sep [x] = x"
| "join sep (x # y # ys) = x @ sep @ join sep (y # ys)"

text \<open>\<open>s.split(c)\<close> for a separator of one character.\<close>

fun split_char :: "char \<Rightarrow> string \<Rightarrow> string list" where
  "split_char c [] = [[]]"
| "split_char c (x # xs) =
     (if x = c then [] # split_char c xs
      else (case split_char c xs of [] \<Rightarrow> [[x]] | l # ls \<Rightarrow> (x # l) # ls))"

text \<open>\<open>str.lower\<close> on one character: the letters A-Z and the Latin-1 capitals.\<close>

definition lower_char :: "char \<Rightarrow> char" where
  "lower_char c =
     (let n = (of_char c :: nat) in
      if (65 \<le> n \<and> n \<le> 90) \<or> (192 \<le> n \<and> n \<le> 222 \<and> n \<noteq> 215)
      then char_of (n + 32) else c)"

definition py_lower :: "string \<Rightarrow> string" where
  "py_lower s = map lower_char s"

text \<open>\<open>s.strip()\<close>\<close>

definition py_strip :: "string \<Rightarrow> string" where
  "py_strip s = dropWhile is_space (rev (dropWhile is_space (rev s)))"

text \<open>\<open>s.replace(a, b)\<close> for a single character \<open>a\<close>.\<close>

definition replace_char :: "char \<Rightarrow> char \<Rightarrow> string \<Rightarrow> string" where
  "replace_char a b s = map (\<lambda>c. if c = a then b else c) s"

text \<open>\<open>s[a:b]\<close> for \<open>0 \<le> a\<close> and \<open>0 \<le> b\<close>.\<close>

definition slice :: "string \<Rightarrow> nat \<Rightarrow> nat \<Rightarrow> string" where
  "slice s a b = take (b - a) (drop a s)"

text \<open>
  \<open>s.find(sub)\<close>: the first index at which \<open>sub\<close> occurs, \<open>None\<close> for Python's \<open>-1\<close>;
  \<open>find_from\<close> counts the index from \<open>i\<close>.
\<close>

fun find_from :: "nat \<Rightarrow> string \<Rightarrow> string \<Rightarrow> nat option" where
  "find_from i sub [] = (if sub = [] then Some i else None)"
| "find_from i sub (c # cs) =
     (if startswith (c # cs) sub then Some i else find_from (Suc i) sub cs)"

definition py_find :: "string \<Rightarrow> string \<Rightarrow> nat option" where
  "py_find s sub = find_from 0 sub s"

text \<open>\<open>sub in s\<close>\<close>

definition contains :: "string \<Rightarrow> string \<Rightarrow> bool" where
  "contains s sub = (py_find s sub \<noteq> None)"

text \<open>
  \<open>s.replace(old, new)\<close>: every occurrence of \<open>old\<close>, found from left to right without
  overlap, becomes \<open>new\<close>; an empty \<open>old\<close> puts \<open>new\<close> before every character and
  at the end.
\<close>

function py_replace :: "string \<Rightarrow> string \<Rightarrow> string \<Rightarrow> string" where
  "py_replace [] old new = (if old = [] then new else [])"
| "py_replace (c # cs) old new =
     (if old = [] then new @ c # py_replace cs old new
      else if startswith (c # cs) old
      then new @ py_replace (drop (length old) (c # cs)) old new
      else c # py_replace cs old new)"
  by pat_completeness auto
termination
  by (relation "measure (\<lambda>(s, old, new). length s)") auto

text \<open>\<open>s.rfind(c)\<close> for one character: the last index of \<open>c\<close>.\<close>

fun rfind_from :: "nat \<Rightarrow> char \<Rightarrow> string \<Rightarrow> nat option" where
  "rfind_from i c [] = None"
| "rfind_from i c (x # xs) =
     (case rfind_from (Suc i) c xs of
        Some j \<Rightarrow> Some j
      | None \<Rightarrow> if x = c then Some i else None)"

definition rfind_char :: "string \<Rightarrow> char \<Rightarrow> nat option" where
  "rfind_char s c = rfind_from 0 c s"

text \<open>
  \<open>PurePath.stem\<close> of a file name: the name without its last suffix, where a dot at the
  start or at the end of the name begins no suffix.
\<close>

definition stem :: "string \<Rightarrow> string" where
  "stem fname =
     (case rfind_char fname (CHR ''.'') of
        None \<Rightarrow> fname
      | Some i \<Rightarrow> if 0 < i \<and> i < length fname - 1 then take i fname else fname)"

section \<open>Python regular expressions\<close>

text \<open>
  The patterns of the source are written as terms of \<open>rx\<close> and run by a backtracking
  matcher that tries alternatives in the order of Python's \<open>re\<close>: the left branch of
  \<open>|\<close> first, a greedy repetition longest first, a lazy one shortest first. A
  repetition is always over one character class, as in every pattern of the source.
\<close>

datatype cclass =
    Dot                 \<comment> \<open>\<open>.\<close>\<close>
  | Space               \<comment> \<open>\<open>\s\<close>\<close>
  | Digit               \<comment> \<open>\<open>\d\<close>\<close>
  | Ch char             \<comment> \<open>one literal character\<close>
  | NotCh char          \<comment> \<open>\<open>[^c]\<close>\<close>

datatype rx =
    Lit string          \<comment> \<open>literal text\<close>
  | Cls cclass          \<comment> \<open>one character of the class\<close>
  | Star cclass         \<comment> \<open>\<open>c*\<close>, greedy\<close>
  | StarLazy cclass     \<comment> \<open>\<open>c*?\<close>, lazy\<close>
  | Seq rx rx
  | Alt rx rx           \<comment> \<open>\<open>a|b\<close>\<close>
  | Look rx             \<comment> \<open>\<open>(?=a)\<close>\<close>
  | Bol                 \<comment> \<open>\<open>^\<close>\<close>
  | Dollar              \<comment> \<open>\<open>$\<close>\<close>
  | Eos                 \<comment> \<open>\<open>\Z\<close>\<close>

text \<open>\<open>c+\<close>, \<open>a?\<close> and the concatenation of a list of patterns.\<close>

definition Plus :: "cclass \<Rightarrow> rx" where
  "Plus c = Seq (Cls c) (Star c)"

definition Opt :: "rx \<Rightarrow> rx" where
  "Opt a = Alt a (Lit [])"

fun Cat :: "rx list \<Rightarrow> rx" where
  "Cat [] = Lit []"
| "Cat [a] = a"
| "Cat (a # b # bs) = Seq a (Cat (b # bs))"

record flags =
  ignorecase :: bool
  multiline :: bool
  dotall :: bool

definition no_flags :: flags where
  "no_flags = \<lparr>ignorecase = False, multiline = False, dotall = False\<rparr>"

definition is_digit :: "char \<Rightarrow> bool" where
  "is_digit c = (c \<in> set ''0123456789'')"

definition ch_eq :: "flags \<Rightarrow> char \<Rightarrow> char \<Rightarrow> bool" where
  "ch_eq f p c = (if ignorecase f then lower_char p = lower_char c else p = c)"

fun cc_match :: "flags \<Rightarrow> cclass \<Rightarrow> char \<Rightarrow> bool" where
  "cc_match f Dot c = (dotall f \<or> c \<noteq> nl)"
| "cc_match f Space c = is_space c"
| "cc_match f Digit c = is_digit c"
| "cc_match f (Ch p) c = ch_eq f p c"
| "cc_match f (NotCh p) c = (\<not> ch_eq f p c)"

text \<open>A literal at the head of the rest of the subject: what is left after it.\<close>

fun lit_match :: "flags \<Rightarrow> string \<Rightarrow> string \<Rightarrow> string option" where
  "lit_match f [] s = Some s"
| "lit_match f (p # ps) [] = None"
| "lit_match f (p # ps) (c # cs) = (if ch_eq f p c then lit_match f ps cs else None)"

text \<open>
  The matcher runs at position \<open>i\<close> of the subject, with \<open>s\<close> the rest of the subject
  from there, and hands the position and the rest after the match to the continuation
  \<open>k\<close>, which matches what follows in the pattern; \<open>None\<close> from \<open>k\<close> makes the matcher
  try its next alternative. The result is the end position of the whole match.
\<close>

fun star_greedy ::
  "(char \<Rightarrow> bool) \<Rightarrow> nat \<Rightarrow> string \<Rightarrow> (nat \<Rightarrow> string \<Rightarrow> nat option) \<Rightarrow> nat option" where
  "star_greedy p i [] k = k i []"
| "star_greedy p i (c # cs) k =
     (if p c
      then (case star_greedy p (Suc i) cs k of Some e \<Rightarrow> Some e | None \<Rightarrow> k i (c # cs))
      else k i (c # cs))"

fun star_lazy ::
  "(char \<Rightarrow> bool) \<Rightarrow> nat \<Rightarrow> string \<Rightarrow> (nat \<Rightarrow> string \<Rightarrow> nat option) \<Rightarrow> nat option" where
  "star_lazy p i [] k = k i []"
| "star_lazy p i (c # cs) k =
     (case k i (c # cs) of
        Some e \<Rightarrow> Some e
      | None \<Rightarrow> if p c then star_lazy p (Suc i) cs k else None)"

text \<open>
  \<open>$\<close> holds at the end of the subject and just before a newline that ends it; under
  \<open>re.MULTILINE\<close> before every newline.
\<close>

definition at_dollar :: "flags \<Rightarrow> string \<Rightarrow> bool" where
  "at_dollar f s = (s = [] \<or> s = [nl] \<or> (multiline f \<and> hd s = nl))"

primrec rx_match ::
  "rx \<Rightarrow> flags \<Rightarrow> nat \<Rightarrow> string \<Rightarrow> (nat \<Rightarrow> string \<Rightarrow> nat option) \<Rightarrow> nat option" where
  "rx_match (Lit l) f i s k =
     (case lit_match f l s of None \<Rightarrow> None | Some r \<Rightarrow> k (i + length l) r)"
| "rx_match (Cls c) f i s k =
     (case s of [] \<Rightarrow> None | x # r \<Rightarrow> if cc_match f c x then k (Suc i) r else None)"
| "rx_match (Star c) f i s k = star_greedy (cc_match f c) i s k"
| "rx_match (StarLazy c) f i s k = star_lazy (cc_match f c) i s k"
| "rx_match (Seq a b) f i s k = rx_match a f i s (\<lambda>j r. rx_match b f j r k)"
| "rx_match (Alt a b) f i s k =
     (case rx_match a f i s k of Some e \<Rightarrow> Some e | None \<Rightarrow> rx_match b f i s k)"
| "rx_match (Look a) f i s k =
     (case rx_match a f i s (\<lambda>j r. Some j) of None \<Rightarrow> None | Some e \<Rightarrow> k i s)"
| "rx_match Bol f i s k = (if i = 0 then k i s else None)"
| "rx_match Dollar f i s k = (if at_dollar f s then k i s else None)"
| "rx_match Eos f i s k = (if s = [] then k i s else None)"

text \<open>\<open>pattern.match\<close> at position \<open>i\<close>: the end of the match.\<close>

definition match_at :: "rx \<Rightarrow> flags \<Rightarrow> nat \<Rightarrow> string \<Rightarrow> nat option" where
  "match_at r f i s = rx_match r f i s (\<lambda>j r. Some j)"

text \<open>
  \<open>re.search\<close>: the match at the leftmost position that has one, as \<open>(start, end)\<close>.
\<close>

fun search_from :: "rx \<Rightarrow> flags \<Rightarrow> nat \<Rightarrow> string \<Rightarrow> (nat \<times> nat) option" where
  "search_from r f i [] = (case match_at r f i [] of None \<Rightarrow> None | Some e \<Rightarrow> Some (i, e))"
| "search_from r f i (c # cs) =
     (case match_at r f i (c # cs) of
        Some e \<Rightarrow> Some (i, e)
      | None \<Rightarrow> search_from r f (Suc i) cs)"

definition re_search :: "rx \<Rightarrow> flags \<Rightarrow> string \<Rightarrow> (nat \<times> nat) option" where
  "re_search r f s = search_from r f 0 s"

text \<open>
  \<open>re.sub(pattern, repl, s)\<close> with a literal replacement: the matches are replaced from
  left to right, the search going on where the last match ended. \<open>sub_from\<close> runs at
  position \<open>i\<close> with \<open>s\<close> the rest of the subject. An empty match is replaced and the
  character after it kept.
\<close>

function sub_from :: "rx \<Rightarrow> flags \<Rightarrow> string \<Rightarrow> nat \<Rightarrow> string \<Rightarrow> string" where
  "sub_from r f repl i [] = (case match_at r f i [] of None \<Rightarrow> [] | Some e \<Rightarrow> repl)"
| "sub_from r f repl i (c # cs) =
     (case match_at r f i (c # cs) of
        None \<Rightarrow> c # sub_from r f repl (Suc i) cs
      | Some e \<Rightarrow>
          if e \<le> i then repl @ c # sub_from r f repl (Suc i) cs
          else repl @ sub_from r f repl e (drop (e - i) (c # cs)))"
  by pat_completeness auto
termination
  by (relation "measure (\<lambda>(r, f, repl, i, s). length s)") auto

definition re_sub :: "rx \<Rightarrow> flags \<Rightarrow> string \<Rightarrow> string \<Rightarrow> string" where
  "re_sub r f repl s = sub_from r f repl 0 s"

section \<open>dynamic\_pricing.py: names\<close>

definition ic_flags :: flags where
  "ic_flags = \<lparr>ignorecase = True, multiline = False, dotall = False\<rparr>"

text \<open>\<open>r'^(CFF|In-Shape):\s*'\<close>\<close>

definition rx_source_prefix :: rx where
  "rx_source_prefix = Cat [Bol, Alt (Lit ''CFF'') (Lit ''In-Shape''), Lit '':'', Star Space]"

text \<open>\<open>r'\s+california\s+\d+'\<close>\<close>

definition rx_california_zip :: rx where
  "rx_california_zip = Cat [Plus Space, Lit ''california'', Plus Space, Plus Digit]"

text \<open>\<open>r'\s+ca\s+\d+'\<close>\<close>

definition rx_ca_zip :: rx where
  "rx_ca_zip = Cat [Plus Space, Lit ''ca'', Plus Space, Plus Digit]"

text \<open>\<open>r'\s+'\<close>\<close>

definition rx_spaces :: rx where
  "rx_spaces = Plus Space"

definition normalize_club_name :: "string \<Rightarrow> string" where
  "normalize_club_name name0 =
     (let name1 = re_sub rx_source_prefix ic_flags [] name0;
          name2 = replace_char (CHR ''-'') (CHR '' '') (replace_char (CHR ''_'') (CHR '' '') (py_lower name1));
          name3 = re_sub rx_california_zip no_flags [] name2;
          name4 = re_sub rx_ca_zip no_flags [] name3
      in py_strip (re_sub rx_spaces no_flags '' '' name4))"

text \<open>\<open>r'^(CFF__|In-Shape__)'\<close>\<close>

definition rx_txt_prefix :: rx where
  "rx_txt_prefix = Seq Bol (Alt (Lit ''CFF__'') (Lit ''In-Shape__''))"

text \<open>\<open>extract_club_name_from_txt\<close>, on the file's name.\<close>

definition extract_club_name_from_txt :: "string \<Rightarrow> string" where
  "extract_club_name_from_txt fname =
     replace_char (CHR ''_'') (CHR '' '') (re_sub rx_txt_prefix no_flags [] (stem fname))"

text \<open>
  \<open>r'^www\.inshape\.com_gyms_'\<close>, \<open>r'_clean$'\<close>, \<open>r'-california-\d+'\<close> and
  \<open>r'-ca-\d+'\<close>
\<close>

definition rx_md_prefix :: rx where
  "rx_md_prefix = Seq Bol (Lit ''www.inshape.com_gyms_'')"

definition rx_clean_suffix :: rx where
  "rx_clean_suffix = Seq (Lit ''_clean'') Dollar"

definition rx_dash_california :: rx where
  "rx_dash_california = Cat [Lit ''-california-'', Plus Digit]"

definition rx_dash_ca :: rx where
  "rx_dash_ca = Cat [Lit ''-ca-'', Plus Digit]"

text \<open>\<open>extract_club_name_from_md\<close>, on the file's name.\<close>

definition extract_club_name_from_md :: "string \<Rightarrow> string" where
  "extract_club_name_from_md fname =
     (let f1 = re_sub rx_md_prefix no_flags [] (stem fname);
          f2 = re_sub rx_clean_suffix no_flags [] f1;
          f3 = re_sub rx_dash_california no_flags [] f2;
          f4 = re_sub rx_dash_ca no_flags [] f3
      in replace_char (CHR ''_'') (CHR '' '') (replace_char (CHR ''-'') (CHR '' '') f4))"

section \<open>dynamic\_pricing.py: read\_pricing\_content\_from\_csv\<close>

text \<open>
  The CSV file is given as the rows that \<open>csv.reader\<close> yields, the header first. A file
  with no row at all makes \<open>next(reader)\<close> raise, which the function's \<open>except\<close> turns
  into \<open>None\<close>.
\<close>

type_synonym csv_row = "string list"

text \<open>The first index of an element that satisfies \<open>p\<close>: a loop that breaks at the first hit.\<close>

fun first_index :: "('a \<Rightarrow> bool) \<Rightarrow> nat \<Rightarrow> 'a list \<Rightarrow> nat option" where
  "first_index p i [] = None"
| "first_index p i (x # xs) = (if p x then Some i else first_index p (Suc i) xs)"

definition is_anchor_column :: "string \<Rightarrow> bool" where
  "is_anchor_column col_name =
     (contains col_name ''Lifestyle Local Network'' \<or> contains col_name ''Lifestyle Network Plus'')"

definition lifestyle_col_idx :: "csv_row \<Rightarrow> nat option" where
  "lifestyle_col_idx header = first_index is_anchor_column 0 header"

text \<open>The columns after the anchor whose stripped name is not empty, with their index.\<close>

definition additional_columns :: "csv_row \<Rightarrow> nat \<Rightarrow> (nat \<times> string) list" where
  "additional_columns header idx =
     filter (\<lambda>(i, col_name). col_name \<noteq> [])
       (map (\<lambda>i. (i, py_strip (header ! i))) [idx + 1 ..< length header])"

definition is_club_row :: "string \<Rightarrow> csv_row \<Rightarrow> bool" where
  "is_club_row club_name row =
     (length row > 1 \<and> normalize_club_name club_name = normalize_club_name (py_strip (row ! 1)))"

definition fee_types :: "string list" where
  "fee_types =
     [''Member Type'', ''Enrollment 12 M'', ''Main Dues 12M'', ''Enrollment MTM'',
      ''Main Dues MTM'', ''Add Adult'', ''Add Youth'', ''Add Child'',
      ''Preferred'', ''Elevate'', ''Non-EFT Fee'', ''Credit Card Service Fee'']"

definition add_on_fees_col :: nat where "add_on_fees_col = 6"
definition local_network_col :: nat where "local_network_col = 15"
definition fitness_plus_col :: nat where "fitness_plus_col = 16"
definition lifestyle_col :: nat where "lifestyle_col = 17"

text \<open>\<open>row[i].strip() if len(row) > i else ""\<close>\<close>

definition cell :: "csv_row \<Rightarrow> nat \<Rightarrow> string" where
  "cell row i = (if length row > i then py_strip (row ! i) else [])"

text \<open>\<open>v or 'Not available'\<close>\<close>

definition or_not_available :: "string \<Rightarrow> string" where
  "or_not_available v = (if v = [] then ''Not available'' else v)"

text \<open>The part of the line for one additional column, if the row has a value there.\<close>

definition additional_part :: "csv_row \<Rightarrow> nat \<times> string \<Rightarrow> string option" where
  "additional_part fee_row col =
     (case col of (col_idx, col_name) \<Rightarrow>
        if length fee_row > col_idx
        then (let col_value = py_strip (fee_row ! col_idx) in
              if col_value \<noteq> [] \<and> col_value \<notin> set [[], ''-'', ''$-'', ''$-'']
              then Some (py_strip (py_replace col_name '' - NFC'' []) @ '': '' @ col_value)
              else None)
        else None)"

definition pricing_line :: "(nat \<times> string) list \<Rightarrow> string \<Rightarrow> csv_row \<Rightarrow> string" where
  "pricing_line add_cols fee_type fee_row =
     (let local_val = cell fee_row local_network_col;
          fitness_val = cell fee_row fitness_plus_col;
          lifestyle_val = cell fee_row lifestyle_col;
          line = fee_type @ '': Local Network: '' @ or_not_available local_val @
                 '' | Fitness Plus Local Network: '' @ or_not_available fitness_val @
                 '' | Lifestyle Network Plus: '' @ or_not_available lifestyle_val;
          additional_parts = List.map_filter (additional_part fee_row) add_cols
      in if additional_parts \<noteq> [] then line @ '' | '' @ join '' | '' additional_parts else line)"

text \<open>The first row of the club whose fee-type cell is \<open>fee_type\<close>.\<close>

definition find_fee_row :: "csv_row list \<Rightarrow> string \<Rightarrow> csv_row option" where
  "find_fee_row club_rows fee_type =
     List.find (\<lambda>row. length row > add_on_fees_col \<and> py_strip (row ! add_on_fees_col) = fee_type)
       club_rows"

definition pricing_lines :: "(nat \<times> string) list \<Rightarrow> csv_row list \<Rightarrow> string list" where
  "pricing_lines add_cols club_rows =
     List.map_filter
       (\<lambda>fee_type. case find_fee_row club_rows fee_type of
           None \<Rightarrow> None
         | Some fee_row \<Rightarrow> if fee_row \<noteq> [] then Some (pricing_line add_cols fee_type fee_row) else None)
       fee_types"

definition read_pricing_content_from_csv ::
  "csv_row list \<Rightarrow> string \<Rightarrow> (string \<times> string list) option" where
  "read_pricing_content_from_csv csv club_name =
     (case csv of
        [] \<Rightarrow> None
      | header # rows \<Rightarrow>
          (case lifestyle_col_idx header of
             None \<Rightarrow> None
           | Some idx \<Rightarrow>
               (let add_cols = additional_columns header idx;
                    club_rows = filter (is_club_row club_name) rows
                in if club_rows = [] then None
                   else Some (join [nl] (pricing_lines add_cols club_rows), map snd add_cols))))"

section \<open>dynamic\_pricing.py: the pricing block\<close>

definition dotall_flags :: flags where
  "dotall_flags = \<lparr>ignorecase = False, multiline = False, dotall = True\<rparr>"

text \<open>\<open>r'Member Type:.*?(?=\n\s*$|\Z)'\<close>, with \<open>tail_rx\<close> the body of its lookahead.\<close>

definition tail_rx :: rx where
  "tail_rx = Alt (Cat [Lit [nl], Star Space, Dollar]) Eos"

definition rx_member_block :: rx where
  "rx_member_block = Cat [Lit ''Member Type:'', StarLazy Dot, Look tail_rx]"

text \<open>\<open>read_pricing_content_from_txt\<close>, on the text of the file.\<close>

definition read_pricing_content_from_txt :: "string \<Rightarrow> string option" where
  "read_pricing_content_from_txt content =
     (case re_search rx_member_block dotall_flags content of
        None \<Rightarrow> None
      | Some (s, e) \<Rightarrow> Some (py_strip (slice content s e)))"

text \<open>
  \<open>r'Member Type:.*?(?:SILVER SNEAKERS|Insurance Availability):.*?(?:available|not available).*?(?:\n(?:Peer Fit|PeerFit):.*?(?:available|not available).*?)?(?=\n\n|\n\[Get Started\]|\Z)'\<close>
\<close>

definition rx_pricing_block :: rx where
  "rx_pricing_block =
     Cat [Lit ''Member Type:'', StarLazy Dot,
          Alt (Lit ''SILVER SNEAKERS'') (Lit ''Insurance Availability''), Lit '':'',
          StarLazy Dot, Alt (Lit ''available'') (Lit ''not available''), StarLazy Dot,
          Opt (Cat [Lit [nl], Alt (Lit ''Peer Fit'') (Lit ''PeerFit''), Lit '':'',
                    StarLazy Dot, Alt (Lit ''available'') (Lit ''not available''),
                    StarLazy Dot]),
          Look (Alt (Lit [nl, nl]) (Alt (Lit (nl # ''[Get Started]'')) Eos))]"

text \<open>
  \<open>replace_pricing_section_in_md\<close>, on the text of the file: the text written back, or
  \<open>None\<close> when the function returns \<open>False\<close> and writes nothing.
\<close>

definition replace_pricing_section_in_md :: "string \<Rightarrow> string \<Rightarrow> string option" where
  "replace_pricing_section_in_md content new_pricing_content =
     (case re_search rx_pricing_block dotall_flags content of
        None \<Rightarrow> None
      | Some (s, e) \<Rightarrow> Some (py_replace content (slice content s e) new_pricing_content))"

text \<open>
  The pieces of a text between the occurrences of \<open>sep\<close> that \<open>str.replace\<close> finds,
  for a separator that is not empty.
\<close>

function pieces :: "string \<Rightarrow> string \<Rightarrow> string list" where
  "pieces [] sep = [[]]"
| "pieces (c # cs) sep =
     (if sep \<noteq> [] \<and> startswith (c # cs) sep
      then [] # pieces (drop (length sep) (c # cs)) sep
      else (case pieces cs sep of [] \<Rightarrow> [[c]] | p # ps \<Rightarrow> (c # p) # ps))"
  by pat_completeness auto
termination
  by (relation "measure (\<lambda>(s, sep). length s)") auto

section \<open>dynamic\_pricing.py: replace\_enhancement\_fee\_text\<close>

definition new_enhancement_fee_text :: string where
  "new_enhancement_fee_text =
     ''*Annual enhancement fee of $49.95 for the first member and $89.95 for all memberships with two or more persons will be billed 60 days from the join date, then every 12 months thereafter for the duration of the membership. If you choose to use a credit or debit card for your method of payment, additional $4.99 credit card fee added to your dues.'' @
     [nl, nl] @
     ''*Amenities and programming vary by location. Monthly retail rebate valid on in-club purchases of drinks, snacks and shakes and excludes day passes and discounted items. Rebate not to exceed monthly dues amount. Relax & Recover available at select clubs. For guest passes, guest must be 18+ and accompany a member. One guest per visit. All access pass is one time per month and expires at the end of the month.'' @
     [nl, nl] @
     ''*Reservations are required. A $2 no-show fee will be applied if reservations are not cancelled 2 hours prior.''"

definition ic_dotall_flags :: flags where
  "ic_dotall_flags = \<lparr>ignorecase = True, multiline = False, dotall = True\<rparr>"

definition multiline_flags :: flags where
  "multiline_flags = \<lparr>ignorecase = False, multiline = True, dotall = False\<rparr>"

definition ic_multiline_flags :: flags where
  "ic_multiline_flags = \<lparr>ignorecase = True, multiline = True, dotall = False\<rparr>"

text \<open>\<open>r'(\*\*Note:\*\*\s*)$'\<close> and \<open>r'(\*\*Additional\s+Fees?:\*\*\s*)$'\<close>\<close>

definition rx_note :: rx where
  "rx_note = Cat [Lit ''**Note:**'', Star Space, Dollar]"

definition rx_additional_fees :: rx where
  "rx_additional_fees =
     Cat [Lit ''**Additional'', Plus Space, Lit ''Fee'', Opt (Cls (Ch (CHR ''s''))), Lit '':**'',
          Star Space, Dollar]"

text \<open>\<open>\[Click\s+here[^\]]*?\]\([^\)]+\)\<close>\<close>

definition rx_click_link :: rx where
  "rx_click_link =
     Cat [Lit ''[Click'', Plus Space, Lit ''here'', StarLazy (NotCh (CHR '']'')), Lit ''](''  ,
          Plus (NotCh (CHR '')'')), Lit '')'']"

text \<open>\<open>Other\s+terms\s+and\s+conditions\s+apply\<close>\<close>

definition rx_other_terms_words :: rx where
  "rx_other_terms_words =
     Cat [Lit ''Other'', Plus Space, Lit ''terms'', Plus Space, Lit ''and'', Plus Space,
          Lit ''conditions'', Plus Space, Lit ''apply'']"

text \<open>
  \<open>Other\s+terms\s+and\s+conditions\s+apply[^.]*?\.?\s*(?:\[Click\s+here[^\]]*?\]\([^\)]+\))?\<close>
\<close>

definition rx_other_terms :: rx where
  "rx_other_terms =
     Cat [rx_other_terms_words, StarLazy (NotCh (CHR ''.'')), Opt (Cls (Ch (CHR ''.''))),
          Star Space, Opt rx_click_link]"

text \<open>The two patterns of the generic branch that begin with \<open>.*?\<close>.\<close>

definition rx_upto_other_terms :: rx where
  "rx_upto_other_terms = Seq (StarLazy Dot) rx_other_terms"

definition rx_upto_click_link :: rx where
  "rx_upto_click_link = Seq (StarLazy Dot) rx_click_link"

text \<open>\<open>r'(.*?\.\s*(?:\n|$))'\<close> and \<open>r'(.*?\.\s+.*?\.\s*(?:\n|$))'\<close>\<close>

definition rx_one_sentence :: rx where
  "rx_one_sentence =
     Cat [StarLazy Dot, Cls (Ch (CHR ''.'')), Star Space, Alt (Lit [nl]) Dollar]"

definition rx_two_sentences :: rx where
  "rx_two_sentences =
     Cat [StarLazy Dot, Cls (Ch (CHR ''.'')), Plus Space, StarLazy Dot, Cls (Ch (CHR ''.'')),
          Star Space, Alt (Lit [nl]) Dollar]"

text \<open>
  The lookahead \<open>(?=\s+Other\s+terms\s+and\s+conditions\s+apply|\[Click\s+here|\n\n#|\Z)\<close>
  that ends the patterns of the legacy branch.
\<close>

definition rx_section_end :: rx where
  "rx_section_end =
     Look (Alt (Seq (Plus Space) rx_other_terms_words)
          (Alt (Cat [Lit ''[Click'', Plus Space, Lit ''here''])
          (Alt (Lit [nl, nl, CHR ''#'']) Eos)))"

text \<open>\<open>terms_pattern\<close> and the pattern of \<open>extended_match\<close>\<close>

definition rx_terms_pattern :: rx where
  "rx_terms_pattern = Seq (StarLazy Dot) rx_section_end"

definition rx_extended :: rx where
  "rx_extended = Cat [StarLazy Dot, Lit ''$2.99'', StarLazy Dot, rx_section_end]"

text \<open>The pattern of both \<open>preserved_match\<close> searches of the legacy branch.\<close>

definition rx_preserved :: rx where
  "rx_preserved = Alt rx_other_terms rx_click_link"

text \<open>
  \<open>r'.*?\.\s*\*?\s*(?:\n\n|\n#|\Z)'\<close>,
  \<open>r'.*?\.\s*\*?\s*\n\s*\*?\s*.*?\$2\.99.*?(?:\n\n|\n#|\Z)'\<close> and
  \<open>r'.*?(?=\n\n|\n#|\Z)'\<close>
\<close>

definition rx_paragraph_end :: rx where
  "rx_paragraph_end = Alt (Lit [nl, nl]) (Alt (Lit [nl, CHR ''#'']) Eos)"

definition rx_fallback_end :: rx where
  "rx_fallback_end =
     Cat [StarLazy Dot, Cls (Ch (CHR ''.'')), Star Space, Opt (Cls (Ch (CHR ''*''))), Star Space,
          rx_paragraph_end]"

definition rx_fallback_next_line :: rx where
  "rx_fallback_next_line =
     Cat [StarLazy Dot, Cls (Ch (CHR ''.'')), Star Space, Opt (Cls (Ch (CHR ''*''))), Star Space,
          Lit [nl], Star Space, Opt (Cls (Ch (CHR ''*''))), Star Space, StarLazy Dot,
          Lit ''$2.99'', StarLazy Dot, rx_paragraph_end]"

definition rx_last_resort :: rx where
  "rx_last_resort = Seq (StarLazy Dot) (Look rx_paragraph_end)"

text \<open>
  The start of the span when no heading is found before the anchor at \<open>pos\<close>:
  \<open>content.rfind('\n', max(0, pos-200), pos)\<close> plus one, or \<open>max(0, pos - 50)\<close>.
\<close>

definition line_start_pos :: "string \<Rightarrow> nat \<Rightarrow> nat" where
  "line_start_pos content pos =
     (case rfind_char (slice content (pos - 200) pos) nl of
        Some j \<Rightarrow> (pos - 200) + j + 1
      | None \<Rightarrow> pos - 50)"

text \<open>
  \<open>pos - (len(before_text) - m.start())\<close>; \<open>before_text\<close> is no longer than \<open>pos\<close>, so
  the difference is not negative.
\<close>

definition heading_pos :: "nat \<Rightarrow> string \<Rightarrow> nat \<Rightarrow> nat" where
  "heading_pos pos before_text m_start = pos - (length before_text - m_start)"

text \<open>
  \<open>"\n\n" + m.group(1).strip()\<close> for a match \<open>(s, e)\<close> in \<open>text\<close> of a pattern that
  is one group.
\<close>

definition preserved_of :: "string \<Rightarrow> nat \<times> nat \<Rightarrow> string" where
  "preserved_of text m = [nl, nl] @ py_strip (slice text (fst m) (snd m))"

text \<open>\<open>'$2.99' in t or 'credit card' in t.lower() or 'debit card' in t.lower()\<close>\<close>

definition has_card_fee :: "string \<Rightarrow> bool" where
  "has_card_fee t =
     (contains t ''$2.99'' \<or> contains (py_lower t) ''credit card'' \<or>
      contains (py_lower t) ''debit card'')"

text \<open>
  The generic branch: \<open>(start_pos, end_pos, preserved_text)\<close> for the anchor at
  \<open>fee_pos\<close>.
\<close>

definition generic_start :: "string \<Rightarrow> nat \<Rightarrow> nat" where
  "generic_start content an_pos =
     (let before_text = slice content (an_pos - 200) an_pos in
      case re_search rx_note multiline_flags before_text of
        Some note_match \<Rightarrow> heading_pos an_pos before_text (fst note_match)
      | None \<Rightarrow> line_start_pos content an_pos)"

text \<open>
  The end of the generic span when neither trailer is found: up to two sentences of
  \<open>after_text\<close>. The last case is the source's
  \<open>an_pos + len(after_text.split('\n')[0]) if '\n' in after_text else len(after_text)\<close>.
\<close>

definition sentences_end :: "nat \<Rightarrow> string \<Rightarrow> nat \<times> string" where
  "sentences_end an_pos after_text =
     (case re_search rx_one_sentence dotall_flags after_text of
        Some end_match \<Rightarrow>
          (case re_search rx_two_sentences dotall_flags after_text of
             Some next_sentence \<Rightarrow> (an_pos + snd next_sentence, [])
           | None \<Rightarrow> (an_pos + snd end_match, []))
      | None \<Rightarrow>
          (if nl \<in> set after_text
           then (case split_char nl after_text of
                   [] \<Rightarrow> an_pos
                 | first_line # _ \<Rightarrow> an_pos + length first_line)
           else length after_text, []))"

text \<open>
  The end of the generic span and the preserved text. \<open>group0.find(group1)\<close> always
  finds the group, which is a part of \<open>group0\<close>; the case \<open>None\<close> is Python's \<open>-1\<close>.
\<close>

definition generic_end :: "string \<Rightarrow> nat \<Rightarrow> nat \<times> string" where
  "generic_end content an_pos =
     (let after_text = slice content an_pos (an_pos + 300);
          terms_match = re_search rx_upto_other_terms ic_dotall_flags after_text;
          link_match = re_search rx_upto_click_link ic_dotall_flags after_text
      in case terms_match of
           Some tm \<Rightarrow>
             (let group0 = slice after_text (fst tm) (snd tm) in
              case re_search rx_other_terms ic_dotall_flags group0 of
                Some pm \<Rightarrow>
                  (case py_find group0 (slice group0 (fst pm) (snd pm)) of
                     Some j \<Rightarrow> (an_pos + fst tm + j, preserved_of group0 pm)
                   | None \<Rightarrow> (an_pos + fst tm - 1, preserved_of group0 pm))
              | None \<Rightarrow> (an_pos + snd tm, []))
         | None \<Rightarrow>
             (case link_match of
                Some lm \<Rightarrow>
                  if fst lm < 200
                  then
                    (let group0 = slice after_text (fst lm) (snd lm) in
                     case re_search rx_click_link ic_flags group0 of
                       Some pm \<Rightarrow>
                         (case py_find group0 (slice group0 (fst pm) (snd pm)) of
                            Some j \<Rightarrow> (an_pos + fst lm + j, preserved_of group0 pm)
                          | None \<Rightarrow> (an_pos + fst lm - 1, preserved_of group0 pm))
                     | None \<Rightarrow> (an_pos + snd lm, []))
                  else sentences_end an_pos after_text
              | None \<Rightarrow> sentences_end an_pos after_text))"

text \<open>The start of the legacy span.\<close>

definition legacy_start :: "string \<Rightarrow> nat \<Rightarrow> nat" where
  "legacy_start content fee_pos =
     (let before_text = slice content (fee_pos - 200) fee_pos in
      case re_search rx_note multiline_flags before_text of
        Some note_match \<Rightarrow> heading_pos fee_pos before_text (fst note_match)
      | None \<Rightarrow>
          (case re_search rx_additional_fees ic_multiline_flags before_text of
             Some additional_match \<Rightarrow> heading_pos fee_pos before_text (fst additional_match)
           | None \<Rightarrow> line_start_pos content fee_pos))"

text \<open>
  What follows a span of \<open>n\<close> characters of \<open>remaining\<close> that ends at \<open>end_pos\<close>: a
  trailer within the next hundred characters moves the end behind it and is preserved.
\<close>

definition trailer_after :: "string \<Rightarrow> nat \<Rightarrow> nat \<Rightarrow> nat \<times> string" where
  "trailer_after remaining end_pos n =
     (let after_text = slice remaining n (n + 100) in
      case re_search rx_preserved ic_dotall_flags after_text of
        Some preserved_match \<Rightarrow> (end_pos + snd preserved_match, preserved_of after_text preserved_match)
      | None \<Rightarrow> (end_pos, []))"

text \<open>
  The end of the legacy span and the preserved text; \<open>None\<close> where the source returns
  \<open>False\<close>.
\<close>

definition legacy_end :: "string \<Rightarrow> nat \<Rightarrow> (nat \<times> string) option" where
  "legacy_end content fee_pos =
     (let remaining = drop fee_pos content in
      case re_search rx_terms_pattern ic_dotall_flags remaining of
        Some terms_match \<Rightarrow>
          (let matched_text = slice remaining (fst terms_match) (snd terms_match) in
           if has_card_fee matched_text
           then Some (trailer_after remaining (fee_pos + length matched_text) (length matched_text))
           else
             (case re_search rx_extended ic_dotall_flags remaining of
                Some extended_match \<Rightarrow>
                  (let extended_text = slice remaining (fst extended_match) (snd extended_match)
                   in Some (trailer_after remaining (fee_pos + length extended_text)
                              (length extended_text)))
              | None \<Rightarrow> Some (fee_pos + length matched_text, [])))
      | None \<Rightarrow>
          (case re_search rx_fallback_end dotall_flags remaining of
             Some end_match \<Rightarrow>
               (let matched_text = slice remaining (fst end_match) (snd end_match) in
                if has_card_fee matched_text then Some (fee_pos + length matched_text, [])
                else
                  (case re_search rx_fallback_next_line ic_dotall_flags remaining of
                     Some next_line_match \<Rightarrow>
                       Some (fee_pos +
                             length (slice remaining (fst next_line_match) (snd next_line_match)), [])
                   | None \<Rightarrow> Some (fee_pos + length matched_text, [])))
           | None \<Rightarrow>
               (case re_search rx_last_resort dotall_flags remaining of
                  Some end_match \<Rightarrow>
                    Some (fee_pos + length (slice remaining (fst end_match) (snd end_match)), [])
                | None \<Rightarrow> None)))"

text \<open>
  The test before the legacy branch: \<open>$49.99\<close> at or after the anchor and no more than
  500 characters behind it, or else \<open>$89.98\<close> within 500 characters of the anchor.
\<close>

definition old_amount_near :: "string \<Rightarrow> nat \<Rightarrow> bool" where
  "old_amount_near content fee_pos =
     (case find_from fee_pos ''$49.99'' (drop fee_pos content) of
        Some amount_pos \<Rightarrow>
          if amount_pos > fee_pos + 500
          then contains (slice content fee_pos (fee_pos + 500)) ''$89.98'' else True
      | None \<Rightarrow> contains (slice content fee_pos (fee_pos + 500)) ''$89.98'')"

text \<open>\<open>content[:start_pos] + replacement + content[end_pos:]\<close>\<close>

definition splice :: "string \<Rightarrow> nat \<Rightarrow> nat \<times> string \<Rightarrow> string" where
  "splice content start_pos ep =
     take start_pos content @ (new_enhancement_fee_text @ snd ep) @ drop (fst ep) content"

text \<open>
  \<open>replace_enhancement_fee_text\<close>, on the text of the file: the value returned and
  the text of the file afterwards, which is written only on the two replacing paths.
\<close>

definition replace_enhancement_fee_text :: "string \<Rightarrow> bool \<times> string" where
  "replace_enhancement_fee_text content =
     (if contains content ''$49.95 for the first member'' \<and>
         contains content ''$89.95 for all memberships''
      then (True, content)
      else
        (case py_find (py_lower content) ''annual enhancement fee'' of
           None \<Rightarrow> (False, content)
         | Some fee_pos \<Rightarrow>
             (let search_start = fee_pos - 50;
                  remaining_text = slice content search_start (fee_pos + 400);
                  has_applies = (contains (py_lower remaining_text) ''applies'' \<and>
                                 contains (py_lower remaining_text) ''annual enhancement fee'');
                  has_dollar_amounts = (contains remaining_text ''$49.99'' \<or>
                                        contains remaining_text ''$89.98'' \<or>
                                        contains remaining_text ''$2.99'')
              in if has_applies \<and> \<not> has_dollar_amounts
                 then
                   (let an_pos =
                          (case find_from search_start ''an annual enhancement fee applies''
                                  (drop search_start (py_lower content)) of
                             Some p \<Rightarrow> p
                           | None \<Rightarrow> fee_pos)
                    in (True, splice content (generic_start content an_pos)
                                (generic_end content an_pos)))
                 else if \<not> old_amount_near content fee_pos then (False, content)
                 else
                   (case legacy_end content fee_pos of
                      None \<Rightarrow> (False, content)
                    | Some ep \<Rightarrow> (True, splice content (legacy_start content fee_pos) ep)))))"

section \<open>dynamic\_pricing.py: build\_club\_mapping\<close>

definition special_mappings :: "string \<rightharpoonup> string" where
  "special_mappings = map_of
     [(''sports complex'', ''rocklin east''),
      (''east arden'', ''carmichael arden''),
      (''madison'', ''madison i 80''),
      (''sunrise'', ''sunrise hwy 50''),
      (''modesto mchenry'', ''modesto mchenry north''),
      (''suisun'', ''suisun city''),
      (''turlock'', ''turlock monte vista''),
      (''vallejo lincoln rd'', ''vallejo lincoln road''),
      (''victorville'', ''victorville north''),
      (''visalia mooney'', ''visalia mooney north'')]"

definition multi_mappings :: "string \<rightharpoonup> string list" where
  "multi_mappings = map_of [(''midtown'', [''midtown'', ''downtown''])]"

text \<open>
  \<open>md_name_map\<close>: the normalized name of each markdown file to the file, a later file
  replacing an earlier one of the same name.
\<close>

definition md_name_map :: "string list \<Rightarrow> (string \<rightharpoonup> string)" where
  "md_name_map md_files =
     foldl (\<lambda>m md_file. m(normalize_club_name (extract_club_name_from_md md_file) \<mapsto> md_file))
       Map.empty md_files"

text \<open>The mapping built so far and the warnings printed so far.\<close>

record matcher_state =
  mapping :: "string \<rightharpoonup> string list"
  warnings :: "string list"

text \<open>The files found for the targets of a multi-mapping, and a warning for each target without one.\<close>

definition resolve_targets :: "(string \<rightharpoonup> string) \<Rightarrow> string list \<Rightarrow> string list" where
  "resolve_targets names targets = List.map_filter names targets"

definition target_warning :: "string \<Rightarrow> string \<Rightarrow> string" where
  "target_warning target_name txt_file =
     ''Warning: Multi-mapping target '' @ [CHR 0x27] @ target_name @ [CHR 0x27] @
     '' not found for '' @ txt_file"

definition target_warnings :: "(string \<rightharpoonup> string) \<Rightarrow> string \<Rightarrow> string list \<Rightarrow> string list" where
  "target_warnings names txt_file targets =
     map (\<lambda>t. target_warning t txt_file) (filter (\<lambda>t. names t = None) targets)"

definition no_match_warning :: "string \<Rightarrow> string \<Rightarrow> string option \<Rightarrow> string" where
  "no_match_warning txt_file normalized special =
     ''Warning: No matching MD file found for '' @ txt_file @ '' (normalized: '' @ [CHR 0x27] @
     normalized @ [CHR 0x27] @
     (case special of None \<Rightarrow> [] | Some sp \<Rightarrow> '', special: '' @ [CHR 0x27] @ sp @ [CHR 0x27]) @ '')''"

definition match_step :: "(string \<rightharpoonup> string) \<Rightarrow> matcher_state \<Rightarrow> string \<Rightarrow> matcher_state" where
  "match_step names st txt_file =
     (let normalized = normalize_club_name (extract_club_name_from_txt txt_file) in
      case multi_mappings normalized of
        Some targets \<Rightarrow>
          (let md_file_list = resolve_targets names targets;
               st' = st\<lparr>warnings := warnings st @ target_warnings names txt_file targets\<rparr>
           in if md_file_list \<noteq> [] then st'\<lparr>mapping := (mapping st')(txt_file \<mapsto> md_file_list)\<rparr>
              else st')
      | None \<Rightarrow>
          (case names normalized of
             Some md_file \<Rightarrow> st\<lparr>mapping := (mapping st)(txt_file \<mapsto> [md_file])\<rparr>
           | None \<Rightarrow>
               (case special_mappings normalized of
                  Some special_normalized \<Rightarrow>
                    (case names special_normalized of
                       Some md_file \<Rightarrow> st\<lparr>mapping := (mapping st)(txt_file \<mapsto> [md_file])\<rparr>
                     | None \<Rightarrow>
                         st\<lparr>warnings := warnings st @
                            [no_match_warning txt_file normalized (Some special_normalized)]\<rparr>)
                | None \<Rightarrow>
                    st\<lparr>warnings := warnings st @ [no_match_warning txt_file normalized None]\<rparr>)))"

text \<open>
  \<open>build_club_mapping\<close> on the names of the files that the two \<open>glob\<close> calls return.
\<close>

definition build_club_mapping :: "string list \<Rightarrow> string list \<Rightarrow> matcher_state" where
  "build_club_mapping txt_files md_files =
     foldl (match_step (md_name_map md_files)) \<lparr>mapping = Map.empty, warnings = []\<rparr> txt_files"

section \<open>inshape\_pricing\_formatter.py: InShapePricingFormatter\<close>

text \<open>\<open>s.endswith(p)\<close>\<close>

definition endswith :: "string \<Rightarrow> string \<Rightarrow> bool" where
  "endswith s p = (length p \<le> length s \<and> drop (length s - length p) s = p)"

text \<open>\<open>c.isdigit()\<close> on one character: the digits and the three superscript digits of Latin-1.\<close>

definition py_isdigit :: "char \<Rightarrow> bool" where
  "py_isdigit c = (is_digit c \<or> c \<in> set [CHR 0xB2, CHR 0xB3, CHR 0xB9])"

definition not_available :: string where
  "not_available = ''Not available''"

definition formatter_fee_types :: "string list" where
  "formatter_fee_types =
     [''Member Type'', ''Enrollment 12 M'', ''Main Dues 12M'', ''Enrollment MTM'',
      ''Main Dues MTM'', ''Add Adult'', ''Add Youth'', ''Add Child'',
      ''Preferred'', ''Elevate'', ''Non-EFT Fee'', ''Credit Card Service Fee'']"

definition clean_price :: "string \<Rightarrow> string" where
  "clean_price v =
     (if v = [] \<or> py_strip v = [] \<or> py_strip v = ''-'' then not_available
      else if py_strip v = ''$-'' then not_available
      else if py_strip v = ''$'' then not_available
      else py_strip v)"

text \<open>
  A dictionary whose order of insertion matters is a list of keys and values with no key
  twice; \<open>key in d\<close> is \<open>has_key\<close>.
\<close>

definition has_key :: "('k \<times> 'v) list \<Rightarrow> 'k \<Rightarrow> bool" where
  "has_key d k = (k \<in> set (map fst d))"

record club_info =
  info_name :: string
  info_level :: string
  info_local_name :: string
  info_local_access :: string
  info_elevate_offering :: string

definition get_network_clubs :: "string \<Rightarrow> (string \<times> club_info) list \<Rightarrow> string list" where
  "get_network_clubs local_name clubs =
     (if local_name = [] \<or> local_name = ''NA'' then []
      else sort (map (\<lambda>(club_id, club_data). info_name club_data)
                  (filter (\<lambda>(club_id, club_data). info_local_name club_data = local_name) clubs)))"

text \<open>The test of \<open>get_program_availability\<close> on one stripped cell.\<close>

definition program_value :: "string \<Rightarrow> bool" where
  "program_value v =
     (v \<noteq> [] \<and> ((CHR ''$'' \<in> set v \<and> list_ex py_isdigit v) \<or> (v \<noteq> [] \<and> v \<noteq> ''-'')))"

definition get_program_availability ::
  "csv_row list \<Rightarrow> (string \<times> nat) list \<Rightarrow> (string \<times> string) list" where
  "get_program_availability rows available_programs =
     map (\<lambda>(program, col_idx).
            (program,
             if list_ex (\<lambda>row. col_idx < length row \<and> program_value (py_strip (row ! col_idx))) rows
             then ''available'' else ''not available''))
       available_programs"

definition program_exact_matches :: "(string \<times> string list) list" where
  "program_exact_matches =
     [(''SILVER SNEAKERS'', [''silver sneakers'']),
      (''ASH - Standard'', [''ash - standard'', ''ash standard'']),
      (''ASH - Premium'', [''ash - premium'', ''ash premium'']),
      (''Optum - Classic Core'', [''optum - classic core'', ''optum classic core'']),
      (''Optum - Premium Elite'', [''optum - premium elite'', ''optum premium elite'']),
      (''OPTUM RENEW'', [''optum renew'', ''optum renew - nfc'']),
      (''Peer Fit'', [''peer fit'', ''peerfit''])]"

text \<open>
  One pattern against one lowered header: the test of the inner loop, where a
  \<open>silver sneakers\<close> pattern is passed over on a header with \<open>soccer\<close> or \<open>academy\<close>.
\<close>

definition pattern_detects :: "string \<Rightarrow> string \<Rightarrow> bool" where
  "pattern_detects header_lower pattern =
     (let pattern_lower = py_lower pattern in
      (pattern_lower = header_lower \<or> header_lower = pattern_lower \<or>
       startswith header_lower (pattern_lower @ '' -'') \<or>
       startswith header_lower (pattern_lower @ '' '') \<or>
       endswith header_lower ('' - '' @ pattern_lower) \<or>
       endswith header_lower ('' '' @ pattern_lower)) \<and>
      \<not> (contains pattern_lower ''silver sneakers'' \<and>
           (contains header_lower ''soccer'' \<or> contains header_lower ''academy'')))"

definition detect_header ::
  "(string \<times> nat) list \<Rightarrow> nat \<times> string \<Rightarrow> (string \<times> nat) list" where
  "detect_header detected ih =
     (case ih of (idx, header) \<Rightarrow>
        foldl (\<lambda>d (program_name, exact_patterns).
                 if has_key d program_name then d
                 else if list_ex (pattern_detects (py_lower (py_strip header))) exact_patterns
                 then d @ [(program_name, idx)] else d)
          detected program_exact_matches)"

definition detect_availability_columns :: "csv_row \<Rightarrow> (string \<times> nat) list" where
  "detect_availability_columns headers =
     foldl detect_header [] (zip [0 ..< length headers] headers)"

text \<open>\<open>club_data_by_name[club_name].append(row)\<close> on a \<open>defaultdict(list)\<close>.\<close>

fun append_row ::
  "(string \<times> csv_row list) list \<Rightarrow> string \<Rightarrow> csv_row \<Rightarrow> (string \<times> csv_row list) list" where
  "append_row [] club_name row = [(club_name, [row])]"
| "append_row ((k, rows) # d) club_name row =
     (if k = club_name then (k, rows @ [row]) # d else (k, rows) # append_row d club_name row)"

record reader_state =
  all_clubs :: "(string \<times> club_info) list"
  club_data_by_name :: "(string \<times> csv_row list) list"

definition read_row :: "reader_state \<Rightarrow> csv_row \<Rightarrow> reader_state" where
  "read_row st row =
     (if length row < 15 then st
      else
        (let club_id = py_strip (row ! 0);
             club_name = py_strip (row ! 1)
         in if club_name = [] \<or> club_name = ''Club Name'' then st
            else
              \<lparr>all_clubs =
                 (if has_key (all_clubs st) club_id then all_clubs st
                  else all_clubs st @
                       [(club_id, \<lparr>info_name = club_name, info_level = py_strip (row ! 2),
                                   info_local_name = py_strip (row ! 3),
                                   info_local_access = py_strip (row ! 4),
                                   info_elevate_offering = py_strip (row ! 5)\<rparr>)]),
               club_data_by_name = append_row (club_data_by_name st) club_name row\<rparr>))"

definition read_rows :: "csv_row list \<Rightarrow> reader_state" where
  "read_rows rows = foldl read_row \<lparr>all_clubs = [], club_data_by_name = []\<rparr> rows"

text \<open>The three values of one row: membership codes on the \<open>Member Type\<close> row, prices elsewhere.\<close>

definition member_cell :: "csv_row \<Rightarrow> nat \<Rightarrow> string" where
  "member_cell row i =
     (if length row > i \<and> py_strip (row ! i) \<noteq> [] then py_strip (row ! i) else not_available)"

definition price_cell :: "csv_row \<Rightarrow> nat \<Rightarrow> string" where
  "price_cell row i = (if length row > i then clean_price (row ! i) else not_available)"

definition fee_step ::
  "(string \<rightharpoonup> string \<times> string \<times> string) \<Rightarrow> csv_row \<Rightarrow> (string \<rightharpoonup> string \<times> string \<times> string)" where
  "fee_step fee_data row =
     (if length row < 15 then fee_data
      else
        (let fee_type = py_strip (row ! 6) in
         if fee_type = ''Member Type''
         then fee_data(fee_type \<mapsto> (member_cell row 12, member_cell row 13, member_cell row 14))
         else fee_data(fee_type \<mapsto> (price_cell row 12, price_cell row 13, price_cell row 14))))"

definition fee_lines :: "csv_row list \<Rightarrow> string list" where
  "fee_lines rows =
     List.map_filter
       (\<lambda>fee_type. case foldl fee_step Map.empty rows fee_type of
            None \<Rightarrow> None
          | Some (one_club, local_network, lifestyle_plus) \<Rightarrow>
              Some (fee_type @ '': One Club: '' @ one_club @ '' | '' @
                    ''Local Network: '' @ local_network @ '' | '' @
                    ''Lifestyle Network Plus: '' @ lifestyle_plus))
       formatter_fee_types"

definition program_order :: "string list" where
  "program_order =
     [''SILVER SNEAKERS'', ''ASH - Standard'', ''ASH - Premium'', ''Optum - Classic Core'',
      ''Optum - Premium Elite'', ''OPTUM RENEW'', ''Peer Fit'']"

definition availability_lines :: "csv_row list \<Rightarrow> (string \<times> nat) list \<Rightarrow> string list" where
  "availability_lines rows availability_programs =
     (if availability_programs \<noteq> []
      then
        (let program_availability = get_program_availability rows availability_programs;
             availability_parts =
               map (\<lambda>program.
                      program @ '': '' @
                      (case map_of program_availability program of
                         None \<Rightarrow> ''not available'' | Some status \<Rightarrow> status))
                 (filter (has_key availability_programs) program_order)
         in if availability_parts \<noteq> []
            then [''Availability:'', join '' | '' availability_parts] else [])
      else [])"

text \<open>The lines that one pass of the output loop appends for \<open>club_name\<close>.\<close>

definition club_lines ::
  "(string \<times> club_info) list \<Rightarrow> (string \<times> nat) list \<Rightarrow> string \<Rightarrow> csv_row list \<Rightarrow> string list" where
  "club_lines clubs availability_programs club_name rows =
     (case rows of
        [] \<Rightarrow> []
      | first_row # _ \<Rightarrow>
          (let local_name = py_strip (first_row ! 3);
               elevate_offering = py_strip (first_row ! 5);
               network_clubs = get_network_clubs local_name clubs
           in [''Club Name: '' @ club_name, [], ''Pricing Details:''] @
              fee_lines rows @
              [[]] @
              [if local_name \<noteq> [] \<and> local_name \<noteq> ''NA''
               then ''Network Name: '' @ local_name @ '' (Other Clubs: '' @
                    (if network_clubs \<noteq> [] then join '', '' network_clubs else []) @ '')''
               else ''Network Name: Not available (Other Clubs: )''] @
              [if elevate_offering \<noteq> [] \<and>
                  py_strip elevate_offering \<notin> set [[], ''NA'', ''Not available'']
               then ''Elevate Offering: '' @ py_strip elevate_offering
               else ''Elevate Offering: Not available''] @
              [[]] @
              availability_lines rows availability_programs @
              [replicate 80 (CHR ''=''), []]))"

text \<open>\<open>sorted(club_data_by_name.keys())\<close>\<close>

definition sorted_club_names :: "csv_row list \<Rightarrow> string list" where
  "sorted_club_names rows = sort (map fst (club_data_by_name (read_rows rows)))"

definition club_block :: "csv_row \<Rightarrow> csv_row list \<Rightarrow> string \<Rightarrow> string list" where
  "club_block headers rows club_name =
     (case map_of (club_data_by_name (read_rows rows)) club_name of
        None \<Rightarrow> []
      | Some club_rows \<Rightarrow>
          club_lines (all_clubs (read_rows rows)) (detect_availability_columns headers)
            club_name club_rows)"

text \<open>
  \<open>process_csv_file\<close> on the rows that \<open>csv.reader\<close> yields, the header first; with no
  header \<open>next\<close> raises \<open>StopIteration\<close>, whose message is empty.
\<close>

definition process_csv_file :: "csv_row list \<Rightarrow> string" where
  "process_csv_file csv =
     (case csv of
        [] \<Rightarrow> ''Error processing file: ''
      | headers # rows \<Rightarrow>
          join [nl] (concat (map (club_block headers rows) (sorted_club_names rows))))"

section \<open>split\_club\_files.py: ClubFileSplitter.split\_club\_sections\<close>

text \<open>
  The file is opened in text mode with the default \<open>newline=None\<close>: every \<open>\r\n\<close> and
  every lone \<open>\r\<close> is read as \<open>\n\<close>.
\<close>

fun universal_newlines :: "string \<Rightarrow> string" where
  "universal_newlines [] = []"
| "universal_newlines [c] = (if c = cr then [nl] else [c])"
| "universal_newlines (c # d # cs) =
     (if c = cr \<and> d = nl then nl # universal_newlines cs
      else if c = cr then nl # universal_newlines (d # cs)
      else c # universal_newlines (d # cs))"

text \<open>\<open>file.readlines()\<close>: the lines of the text, each with its ending \<open>\n\<close> if it has one.\<close>

fun readlines :: "string \<Rightarrow> string list" where
  "readlines [] = []"
| "readlines (c # cs) =
     (if c = nl then [nl] # readlines cs
      else (case readlines cs of [] \<Rightarrow> [[c]] | l # ls \<Rightarrow> (c # l) # ls))"

text \<open>\<open>line.rstrip('\n')\<close>\<close>

definition rstrip_nl :: "string \<Rightarrow> string" where
  "rstrip_nl s = rev (dropWhile (\<lambda>c. c = nl) (rev s))"

record club_section =
  name :: string
  content :: string

text \<open>The three locals of the loop: \<open>club_sections\<close>, \<open>current_club\<close>, \<open>current_content\<close>.\<close>

record splitter_state =
  club_sections :: "club_section list"
  current_club :: "string option"
  current_content :: "string list"

definition separator_line :: string where
  "separator_line =
     ''================================================================================''"

text \<open>
  \<open>if current_club and current_content: club_sections.append(...)\<close>: the club is
  neither \<open>None\<close> nor empty and it has content.
\<close>

definition save_club :: "splitter_state \<Rightarrow> club_section list" where
  "save_club st =
     (case current_club st of
        None \<Rightarrow> club_sections st
      | Some c \<Rightarrow>
          if c \<noteq> [] \<and> current_content st \<noteq> []
          then club_sections st @ [\<lparr>name = c, content = join [nl] (current_content st)\<rparr>]
          else club_sections st)"

definition split_step :: "splitter_state \<Rightarrow> string \<Rightarrow> splitter_state" where
  "split_step st raw =
     (let line = rstrip_nl raw in
      if startswith line ''Club Name: ''
      then \<lparr>club_sections = save_club st, current_club = Some line, current_content = [line]\<rparr>
      else if (case current_club st of None \<Rightarrow> False | Some c \<Rightarrow> c \<noteq> [])
      then (if line \<noteq> separator_line
            then st\<lparr>current_content := current_content st @ [line]\<rparr>
            else st)
      else st)"

definition split_init :: splitter_state where
  "split_init = \<lparr>club_sections = [], current_club = None, current_content = []\<rparr>"

text \<open>The loop over the lines that \<open>readlines\<close> returned, and the save of the last club.\<close>

definition split_lines :: "string list \<Rightarrow> club_section list" where
  "split_lines ls = save_club (foldl split_step split_init ls)"

definition split_club_sections :: "string \<Rightarrow> club_section list" where
  "split_club_sections text = split_lines (readlines (universal_newlines text))"

text \<open>
  What every finished section looks like, and what the loop keeps true of its state.
\<close>

definition good_section :: "club_section \<Rightarrow> bool" where
  "good_section sec = (\<exists>rest. split_char nl (content sec) = name sec # rest \<and>
      startswith (name sec) ''Club Name: '' \<and> separator_line \<notin> set (name sec # rest))"

definition split_inv :: "splitter_state \<Rightarrow> bool" where
  "split_inv st = ((\<forall>sec\<in>set (club_sections st). good_section sec) \<and>
     (case current_club st of None \<Rightarrow> True
      | Some c \<Rightarrow> startswith c ''Club Name: '' \<and> (\<exists>rest. current_content st = c # rest) \<and>
          separator_line \<notin> set (current_content st) \<and> (\<forall>l\<in>set (current_content st). nl \<notin> set l)))"

text \<open>
  Single-spaced text: every whitespace character is a blank and no two of them are
  adjacent. This is what \<open>re.sub(r'\s+', ' ', name)\<close> leaves.
\<close>

fun single_spaced :: "string \<Rightarrow> bool" where
  "single_spaced [] = True"
| "single_spaced [c] = (if is_space c then c = CHR '' '' else True)"
| "single_spaced (c # d # r) =
     ((if is_space c then c = CHR '' '' \<and> \<not> is_space d else True) \<and> single_spaced (d # r))"

text \<open>
  What \<open>lower()\<close> and the two \<open>replace\<close> calls leave of a character: it is its own
  lower case and neither an underscore nor a hyphen.
\<close>

definition clean_char :: "char \<Rightarrow> bool" where
  "clean_char c = (lower_char c = c \<and> c \<noteq> CHR ''_'' \<and> c \<noteq> CHR ''-'')"

text \<open>A data row that the reading loop of \<open>process_csv_file\<close> does not skip.\<close>

definition counted_row :: "csv_row \<Rightarrow> bool" where
  "counted_row row = (15 \<le> length row \<and> py_strip (row ! 1) \<noteq> [] \<and> py_strip (row ! 1) \<noteq> ''Club Name'')"

section \<open>Properties of the string functions\<close>

text \<open>\<open>startswith\<close> character by character, which is also how it is evaluated.\<close>

lemma startswith_code [code]:
  "startswith s [] = True"
  "startswith [] (p # ps) = False"
  "startswith (c # cs) (p # ps) = (c = p \<and> startswith cs ps)"
  by (simp_all add: startswith_def)

section \<open>Properties of the splitter\<close>

lemma startswith_not_sep: "startswith l ''Club Name: '' \<Longrightarrow> l \<noteq> separator_line"
  by (auto simp: startswith_def separator_line_def)

lemma readlines_butlast: "r \<in> set (readlines t) \<Longrightarrow> nl \<notin> set (butlast r)"
  by (induction t arbitrary: r rule: readlines.induct) (auto split: if_splits list.splits)

lemma rstrip_nl_clean: "nl \<notin> set (butlast r) \<Longrightarrow> nl \<notin> set (rstrip_nl r)"
  by (cases r rule: rev_cases) (auto simp: rstrip_nl_def dest: set_dropWhileD)

lemma split_join_nl:
  "ls \<noteq> [] \<Longrightarrow> \<forall>l\<in>set ls. c \<notin> set l \<Longrightarrow> split_char c (join [c] ls) = ls"
proof (induction "[c]" ls rule: join.induct)
  case 1 then show ?case by simp
next
  case (2 x)
  then show ?case by (induction x) (auto split: list.splits)
next
  case (3 x y ys)
  have "\<And>r. split_char c r \<noteq> [] \<Longrightarrow> c \<notin> set x \<Longrightarrow> split_char c (x @ c # r) = x # split_char c r"
    by (induction x) (auto split: list.splits)
  moreover have "split_char c (join [c] (y # ys)) \<noteq> []" using 3 by simp
  ultimately show ?case using 3 by simp
qed

lemma save_club_good: "split_inv st \<Longrightarrow> \<forall>sec\<in>set (save_club st). good_section sec"
  by (auto simp: split_inv_def save_club_def good_section_def split_join_nl split: option.splits)

lemma split_step_inv:
  assumes "split_inv st" "nl \<notin> set (butlast raw)"
  shows "split_inv (split_step st raw)"
proof -
  have c: "nl \<notin> set (rstrip_nl raw)" using assms(2) by (rule rstrip_nl_clean)
  show ?thesis
  proof (cases "startswith (rstrip_nl raw) ''Club Name: ''")
    case True
    then show ?thesis
      using save_club_good[OF assms(1)] c startswith_not_sep[OF True]
      by (simp add: split_step_def split_inv_def Let_def)
  next
    case False
    then show ?thesis using assms(1) c
      by (auto simp: split_step_def split_inv_def Let_def split: option.splits)
  qed
qed

lemma foldl_split_inv:
  "split_inv st \<Longrightarrow> \<forall>r\<in>set rs. nl \<notin> set (butlast r) \<Longrightarrow> split_inv (foldl split_step st rs)"
  by (induction rs arbitrary: st) (auto simp: split_step_inv)

lemma split_step_skip:
  "\<not> startswith (rstrip_nl l) ''Club Name: '' \<Longrightarrow> split_step split_init l = split_init"
  by (simp add: split_step_def split_init_def Let_def)

lemma foldl_split_skip:
  "\<forall>l\<in>set pre. \<not> startswith (rstrip_nl l) ''Club Name: '' \<Longrightarrow> foldl split_step split_init pre = split_init"
  by (induction pre) (auto simp: split_step_skip)

text \<open>
  C10: for every input text, the content of each section that \<open>split_club_sections\<close>
  returns, read line by line, begins with the section's own \<open>Club Name: \<close> header line
  and holds no line equal to the separator of eighty \<open>=\<close>; and the lines before the first
  \<open>Club Name: \<close> line change nothing: the sections are those of the remaining lines.
\<close>

theorem split_club_sections_header_first:
  "(\<forall>sec\<in>set (split_club_sections text).
      \<exists>rest. split_char nl (content sec) = name sec # rest \<and>
             startswith (name sec) ''Club Name: '' \<and>
             separator_line \<notin> set (name sec # rest)) \<and>
   ((\<forall>l\<in>set pre. \<not> startswith (rstrip_nl l) ''Club Name: '') \<longrightarrow>
      split_lines (pre @ ls) = split_lines ls)"
proof
  have "split_inv split_init" by (simp add: split_inv_def split_init_def)
  then have "split_inv (foldl split_step split_init (readlines (universal_newlines text)))"
    by (rule foldl_split_inv) (simp add: readlines_butlast)
  then show "\<forall>sec\<in>set (split_club_sections text).
      \<exists>rest. split_char nl (content sec) = name sec # rest \<and>
             startswith (name sec) ''Club Name: '' \<and>
             separator_line \<notin> set (name sec # rest)"
    using save_club_good by (simp add: split_club_sections_def split_lines_def good_section_def)
next
  show "(\<forall>l\<in>set pre. \<not> startswith (rstrip_nl l) ''Club Name: '') \<longrightarrow>
      split_lines (pre @ ls) = split_lines ls"
    by (simp add: split_lines_def foldl_split_skip)
qed

text \<open>
  The theorem at a report with a preamble, two clubs and a separator line between them.
\<close>

theorem split_club_sections_header_first_witness:
  "split_club_sections (''Report'' @ [cr, nl] @ ''Club Name: A'' @ [nl] @ ''fee'' @ [nl] @
      separator_line @ [nl] @ ''Club Name: B'' @ [nl] @ ''x'') =
     [\<lparr>name = ''Club Name: A'', content = ''Club Name: A'' @ [nl] @ ''fee''\<rparr>,
      \<lparr>name = ''Club Name: B'', content = ''Club Name: B'' @ [nl] @ ''x''\<rparr>] \<and>
   (\<exists>rest. split_char nl (''Club Name: B'' @ [nl] @ ''x'') = ''Club Name: B'' # rest \<and>
      startswith ''Club Name: B'' ''Club Name: '' \<and>
      separator_line \<notin> set (''Club Name: B'' # rest)) \<and>
   \<not> startswith (rstrip_nl (''Report'' @ [nl])) ''Club Name: '' \<and>
   \<not> startswith (rstrip_nl separator_line) ''Club Name: '' \<and>
   split_lines ([''Report'' @ [nl], separator_line] @ [''Club Name: A'' @ [nl], ''fee'']) =
     split_lines [''Club Name: A'' @ [nl], ''fee'']"
proof -
  have e: "split_club_sections (''Report'' @ [cr, nl] @ ''Club Name: A'' @ [nl] @ ''fee'' @ [nl] @
      separator_line @ [nl] @ ''Club Name: B'' @ [nl] @ ''x'') =
     [\<lparr>name = ''Club Name: A'', content = ''Club Name: A'' @ [nl] @ ''fee''\<rparr>,
      \<lparr>name = ''Club Name: B'', content = ''Club Name: B'' @ [nl] @ ''x''\<rparr>]"
    by code_simp
  have h1: "\<not> startswith (rstrip_nl (''Report'' @ [nl])) ''Club Name: ''"
    by code_simp
  have h2: "\<not> startswith (rstrip_nl separator_line) ''Club Name: ''"
    by code_simp
  show ?thesis
    using split_club_sections_header_first
      [of "''Report'' @ [cr, nl] @ ''Club Name: A'' @ [nl] @ ''fee'' @ [nl] @
        separator_line @ [nl] @ ''Club Name: B'' @ [nl] @ ''x''"
          "[''Report'' @ [nl], separator_line]" "[''Club Name: A'' @ [nl], ''fee'']"] h1 h2
    unfolding e by simp
qed

section \<open>Properties of the regular-expression engine\<close>

declare sub_from.simps [simp del]

lemma sub_from_no_match:
  "search_from r f i s = None \<Longrightarrow> sub_from r f repl i s = s"
  by (induction r f i s rule: search_from.induct) (auto simp: sub_from.simps split: option.splits)

lemma re_sub_no_match: "re_search r f s = None \<Longrightarrow> re_sub r f repl s = s"
  unfolding re_search_def re_sub_def by (rule sub_from_no_match)

lemma set_sub_from: "set (sub_from r f repl i s) \<subseteq> set s \<union> set repl"
proof (induction r f repl i s rule: sub_from.induct)
  case (1 r f repl i)
  then show ?case by (auto simp: sub_from.simps split: option.splits)
next
  case (2 r f repl i c cs)
  show ?case
  proof (cases "match_at r f i (c # cs)")
    case None
    then show ?thesis using 2(1) by (auto simp: sub_from.simps)
  next
    case (Some e)
    show ?thesis
    proof (cases "e \<le> i")
      case True
      then show ?thesis using Some 2(2) by (auto simp: sub_from.simps)
    next
      case False
      have "set (drop (e - i) (c # cs)) \<subseteq> set (c # cs)" by (rule set_drop_subset)
      then show ?thesis using Some False 2(3)[OF Some False] by (auto simp: sub_from.simps)
    qed
  qed
qed

lemma set_re_sub: "set (re_sub r f repl s) \<subseteq> set s \<union> set repl"
  by (simp add: re_sub_def set_sub_from)

lemma star_greedy_all:
  "star_greedy p i s (\<lambda>j r. Some j) = Some (i + length (takeWhile p s))"
  by (induction s arbitrary: i) auto

lemma cc_match_Space: "cc_match f Space = is_space"
  by (rule ext) simp

lemma match_at_spaces:
  "match_at rx_spaces f i s =
     (case s of [] \<Rightarrow> None
      | c # cs \<Rightarrow> if is_space c then Some (Suc i + length (takeWhile is_space cs)) else None)"
  by (cases s) (auto simp: match_at_def rx_spaces_def Plus_def star_greedy_all cc_match_Space
      simp del: star_greedy.simps)


section \<open>Properties of normalize\_club\_name\<close>

lemma blank_is_space: "is_space (CHR '' '')"
  by (simp add: is_space_def)

lemma sub_spaces_fixed:
  "single_spaced s \<Longrightarrow> sub_from rx_spaces f '' '' i s = s"
proof (induction s arbitrary: i rule: single_spaced.induct)
  case 1
  then show ?case by (simp add: match_at_spaces sub_from.simps)
next
  case (2 c)
  then show ?case by (auto simp: match_at_spaces sub_from.simps split: if_splits)
next
  case (3 c d r)
  then show ?case by (auto simp: match_at_spaces sub_from.simps split: if_splits)
qed

lemma sub_spaces_shape:
  "single_spaced (sub_from rx_spaces f '' '' i s) \<and>
   (case s of [] \<Rightarrow> sub_from rx_spaces f '' '' i s = []
    | c # cs \<Rightarrow> \<exists>t. sub_from rx_spaces f '' '' i s = (if is_space c then CHR '' '' else c) # t)"
proof (induction rx_spaces f "'' ''" i s rule: sub_from.induct)
  case (1 f i)
  then show ?case by (simp add: match_at_spaces sub_from.simps)
next
  case (2 f i c cs)
  show ?case
  proof (cases "is_space c")
    case False
    then have m: "match_at rx_spaces f i (c # cs) = None" by (simp add: match_at_spaces)
    have u: "sub_from rx_spaces f '' '' i (c # cs) = c # sub_from rx_spaces f '' '' (Suc i) cs"
      using m by (simp add: sub_from.simps)
    from 2(1)[OF m] False show ?thesis unfolding u
      by (cases cs) (auto split: if_splits)
  next
    case True
    define e where "e = Suc i + length (takeWhile is_space cs)"
    have m: "match_at rx_spaces f i (c # cs) = Some e" using True by (simp add: match_at_spaces e_def)
    have ne: "\<not> e \<le> i" by (simp add: e_def)
    have d: "drop (e - i) (c # cs) = dropWhile is_space cs"
      by (simp add: e_def dropWhile_eq_drop)
    have s: "sub_from rx_spaces f '' '' i (c # cs) = CHR '' '' # sub_from rx_spaces f '' '' e (dropWhile is_space cs)"
      using m ne d by (simp add: sub_from.simps)
    define r where "r = sub_from rx_spaces f '' '' e (dropWhile is_space cs)"
    have ih: "single_spaced r \<and>
      (case dropWhile is_space cs of [] \<Rightarrow> r = []
       | c # cs' \<Rightarrow> \<exists>t. r = (if is_space c then CHR '' '' else c) # t)"
      using 2(3)[OF m ne] unfolding r_def by (simp only: d)
    have s': "sub_from rx_spaces f '' '' i (c # cs) = CHR '' '' # r"
      using s by (simp only: r_def)
    show ?thesis
    proof (cases "dropWhile is_space cs")
      case Nil
      then have "r = []" using ih[unfolded Nil] by simp
      then show ?thesis unfolding s' using True by (simp add: blank_is_space)
    next
      case (Cons x xs)
      then have nx: "\<not> is_space x" by (metis hd_dropWhile list.sel(1) list.distinct(1))
      from ih Cons nx obtain t where t: "r = x # t" by auto
      have "single_spaced (x # t)" using ih t by simp
      then show ?thesis unfolding s' t using True nx by (simp add: blank_is_space)
    qed
  qed
qed

lemma single_spaced_append: "single_spaced (a @ b) \<Longrightarrow> single_spaced a \<and> single_spaced b"
proof (induction a rule: single_spaced.induct)
  case 1 then show ?case by simp
next
  case (2 c) then show ?case by (cases b) (auto split: if_splits)
next
  case (3 c d r) then show ?case by (auto split: if_splits)
qed

lemma py_strip_parts:
  "\<exists>a b. s = a @ py_strip s @ b"
proof -
  have "rev s = takeWhile is_space (rev s) @ dropWhile is_space (rev s)" by simp
  then have "rev (rev s) = rev (takeWhile is_space (rev s) @ dropWhile is_space (rev s))" by simp
  then have 1: "s = rev (dropWhile is_space (rev s)) @ rev (takeWhile is_space (rev s))"
    by (simp only: rev_rev_ident rev_append)
  have 2: "rev (dropWhile is_space (rev s)) =
     takeWhile is_space (rev (dropWhile is_space (rev s))) @ py_strip s"
    by (simp add: py_strip_def)
  from 1 2 show ?thesis by (metis append.assoc)
qed

lemma single_spaced_strip: "single_spaced s \<Longrightarrow> single_spaced (py_strip s)"
  using py_strip_parts[of s] single_spaced_append by metis

lemma dropWhile_rev_last:
  "xs \<noteq> [] \<Longrightarrow> \<not> P (last xs) \<Longrightarrow> dropWhile P (rev xs) = rev xs"
  by (cases xs rule: rev_cases) auto

lemma py_strip_idem: "py_strip (py_strip s) = py_strip s"
proof -
  define p where "p = rev (dropWhile is_space (rev s))"
  have y: "py_strip s = dropWhile is_space p" by (simp add: py_strip_def p_def)
  show ?thesis
  proof (cases "dropWhile is_space p = []")
    case True
    then have e: "py_strip s = []" using y by simp
    have "py_strip [] = []" by (simp add: py_strip_def)
    then show ?thesis by (simp only: e)
  next
    case False
    then have pne: "p \<noteq> []" by auto
    have "\<not> is_space (hd (rev p))" using pne
      by (metis p_def hd_dropWhile rev_rev_ident rev_is_Nil_conv)
    then have lp: "\<not> is_space (last p)" using pne by (simp add: hd_rev)
    have "last (dropWhile is_space p) = last p" using False
      by (metis last_appendR takeWhile_dropWhile_id)
    then have "dropWhile is_space (rev (dropWhile is_space p)) = rev (dropWhile is_space p)"
      using False lp by (simp add: dropWhile_rev_last)
    then show ?thesis by (subst py_strip_def) (simp only: y rev_rev_ident dropWhile_idem)
  qed
qed


lemma lower_char_idem: "lower_char (lower_char c) = lower_char c"
proof -
  have "of_char c < (256::nat)" by simp
  then show ?thesis
    by (auto simp: lower_char_def Let_def)
qed


lemma clean_blank: "clean_char (CHR '' '')"
  by (simp add: clean_char_def lower_char_def)

lemma clean_lowered:
  "\<forall>c\<in>set (replace_char (CHR ''-'') (CHR '' '') (replace_char (CHR ''_'') (CHR '' '') (py_lower s))).
     clean_char c"
  using clean_blank by (auto simp: replace_char_def py_lower_def clean_char_def lower_char_idem)

lemma clean_fixed:
  assumes "\<forall>c\<in>set s. clean_char c"
  shows "replace_char (CHR ''-'') (CHR '' '') (replace_char (CHR ''_'') (CHR '' '') (py_lower s)) = s"
proof -
  have "py_lower s = s"
    unfolding py_lower_def using assms by (intro map_idI) (simp add: clean_char_def)
  moreover have "replace_char (CHR ''_'') (CHR '' '') s = s"
    unfolding replace_char_def using assms by (intro map_idI) (simp add: clean_char_def)
  moreover have "replace_char (CHR ''-'') (CHR '' '') s = s"
    unfolding replace_char_def using assms by (intro map_idI) (simp add: clean_char_def)
  ultimately show ?thesis by simp
qed

lemma set_py_strip: "set (py_strip s) \<subseteq> set s"
proof -
  have "set (py_strip s) \<subseteq> set (rev (dropWhile is_space (rev s)))"
    unfolding py_strip_def by (rule set_dropWhileD[THEN subsetI])
  also have "\<dots> \<subseteq> set s" using set_dropWhileD[of _ is_space "rev s"] by auto
  finally show ?thesis .
qed

lemma normalize_clean: "\<forall>c\<in>set (normalize_club_name x). clean_char c"
proof -
  define n2 where "n2 = replace_char (CHR ''-'') (CHR '' '')
     (replace_char (CHR ''_'') (CHR '' '') (py_lower (re_sub rx_source_prefix ic_flags [] x)))"
  have 2: "\<forall>c\<in>set n2. clean_char c" unfolding n2_def by (rule clean_lowered)
  have 3: "\<forall>c\<in>set (re_sub rx_california_zip no_flags [] n2). clean_char c"
    using 2 set_re_sub[of rx_california_zip no_flags "[]" n2] by auto
  have 4: "\<forall>c\<in>set (re_sub rx_ca_zip no_flags [] (re_sub rx_california_zip no_flags [] n2)). clean_char c"
    using 3 set_re_sub[of rx_ca_zip no_flags "[]" "re_sub rx_california_zip no_flags [] n2"] by auto
  have 5: "\<forall>c\<in>set (re_sub rx_spaces no_flags '' ''
      (re_sub rx_ca_zip no_flags [] (re_sub rx_california_zip no_flags [] n2))). clean_char c"
    using 4 clean_blank set_re_sub[of rx_spaces no_flags "'' ''"
        "re_sub rx_ca_zip no_flags [] (re_sub rx_california_zip no_flags [] n2)"] by auto
  have "normalize_club_name x = py_strip (re_sub rx_spaces no_flags '' ''
      (re_sub rx_ca_zip no_flags [] (re_sub rx_california_zip no_flags [] n2)))"
    by (simp add: normalize_club_name_def n2_def Let_def)
  then show ?thesis using 5 set_py_strip by (metis subsetD)
qed

lemma normalize_single_spaced: "single_spaced (normalize_club_name x)"
  unfolding normalize_club_name_def Let_def re_sub_def
  by (rule single_spaced_strip) (rule sub_spaces_shape[THEN conjunct1])

lemma normalize_stripped: "py_strip (normalize_club_name x) = normalize_club_name x"
  unfolding normalize_club_name_def Let_def by (rule py_strip_idem)

text \<open>
  C5, as amended: \<open>normalize(normalize(x)) == normalize(x)\<close> for every \<open>x\<close> whose
  normalized name holds no further match of the three patterns that one pass removes:
  the leading source tag and the two state-and-zip patterns.
\<close>

theorem normalize_club_name_idempotent_on_clean:
  assumes "re_search rx_source_prefix ic_flags (normalize_club_name x) = None"
    and "re_search rx_california_zip no_flags (normalize_club_name x) = None"
    and "re_search rx_ca_zip no_flags (normalize_club_name x) = None"
  shows "normalize_club_name (normalize_club_name x) = normalize_club_name x"
proof -
  define y where "y = normalize_club_name x"
  have 1: "re_sub rx_source_prefix ic_flags [] y = y"
    using assms(1) unfolding y_def by (rule re_sub_no_match)
  have 2: "replace_char (CHR ''-'') (CHR '' '') (replace_char (CHR ''_'') (CHR '' '') (py_lower y)) = y"
    unfolding y_def by (rule clean_fixed) (rule normalize_clean)
  have 3: "re_sub rx_california_zip no_flags [] y = y"
    using assms(2) unfolding y_def by (rule re_sub_no_match)
  have 4: "re_sub rx_ca_zip no_flags [] y = y"
    using assms(3) unfolding y_def by (rule re_sub_no_match)
  have 5: "re_sub rx_spaces no_flags '' '' y = y"
    unfolding y_def re_sub_def by (rule sub_spaces_fixed) (rule normalize_single_spaced)
  have 6: "py_strip y = y" unfolding y_def by (rule normalize_stripped)
  have "normalize_club_name y = y"
    by (simp add: normalize_club_name_def[of y] Let_def 1 2 3 4 5 6)
  then show ?thesis by (simp add: y_def)
qed

text \<open>The amended statement at a tagged name with a state and a zip code.\<close>

theorem normalize_club_name_idempotent_on_clean_witness:
  "re_search rx_source_prefix ic_flags (normalize_club_name ''CFF: Rocklin_East California 95677'') = None \<and>
   re_search rx_california_zip no_flags (normalize_club_name ''CFF: Rocklin_East California 95677'') = None \<and>
   re_search rx_ca_zip no_flags (normalize_club_name ''CFF: Rocklin_East California 95677'') = None \<and>
   normalize_club_name ''CFF: Rocklin_East California 95677'' = ''rocklin east'' \<and>
   normalize_club_name (normalize_club_name ''CFF: Rocklin_East California 95677'') =
     normalize_club_name ''CFF: Rocklin_East California 95677''"
proof -
  have e: "normalize_club_name ''CFF: Rocklin_East California 95677'' = ''rocklin east''"
    by code_simp
  have h1: "re_search rx_source_prefix ic_flags ''rocklin east'' = None" by code_simp
  have h2: "re_search rx_california_zip no_flags ''rocklin east'' = None" by code_simp
  have h3: "re_search rx_ca_zip no_flags ''rocklin east'' = None" by code_simp
  show ?thesis
    using normalize_club_name_idempotent_on_clean[of "''CFF: Rocklin_East California 95677''"] h1 h2 h3
    unfolding e by simp
qed

text \<open>
  C5 as stated fails: one pass over a doubly tagged name leaves \<open>cff: rocklin\<close>, and
  the second pass strips that tag too.
\<close>

theorem normalize_club_name_not_idempotent:
  "normalize_club_name (normalize_club_name ''In-Shape: CFF: Rocklin'') \<noteq>
   normalize_club_name ''In-Shape: CFF: Rocklin''"
  by code_simp

section \<open>Properties of read\_pricing\_content\_from\_csv\<close>

lemma first_index_None: "first_index p i xs = None \<longleftrightarrow> (\<forall>x\<in>set xs. \<not> p x)"
  by (induction xs arbitrary: i) auto

text \<open>
  C6: \<open>read_pricing_content_from_csv\<close> returns a result exactly when the header row has
  a column whose name contains \<open>Lifestyle Local Network\<close> or \<open>Lifestyle Network Plus\<close>
  and some data row has a club-name cell whose normalized value is the normalized target
  name; in every other case it returns \<open>None\<close>.
\<close>

theorem read_pricing_content_from_csv_result:
  "(read_pricing_content_from_csv csv club_name \<noteq> None) =
     (\<exists>header rows. csv = header # rows \<and>
        (\<exists>col\<in>set header. contains col ''Lifestyle Local Network'' \<or>
                             contains col ''Lifestyle Network Plus'') \<and>
        (\<exists>row\<in>set rows. length row > 1 \<and>
           normalize_club_name club_name = normalize_club_name (py_strip (row ! 1))))"
proof (cases csv)
  case Nil
  then show ?thesis by (simp add: read_pricing_content_from_csv_def)
next
  case (Cons header rows)
  show ?thesis
  proof (cases "lifestyle_col_idx header")
    case None
    then have "\<forall>col\<in>set header. \<not> is_anchor_column col"
      by (simp add: lifestyle_col_idx_def first_index_None)
    then show ?thesis using None Cons
      by (simp add: read_pricing_content_from_csv_def is_anchor_column_def)
  next
    case (Some idx)
    then have "\<not> (\<forall>col\<in>set header. \<not> is_anchor_column col)"
      using first_index_None[of is_anchor_column 0 header] by (simp add: lifestyle_col_idx_def)
    then have a: "\<exists>col\<in>set header. contains col ''Lifestyle Local Network'' \<or>
                             contains col ''Lifestyle Network Plus''"
      by (simp add: is_anchor_column_def)
    have f: "(filter (is_club_row club_name) rows \<noteq> []) =
       (\<exists>row\<in>set rows. length row > 1 \<and>
           normalize_club_name club_name = normalize_club_name (py_strip (row ! 1)))"
      by (auto simp: filter_empty_conv is_club_row_def)
    have "(read_pricing_content_from_csv csv club_name \<noteq> None) =
       (filter (is_club_row club_name) rows \<noteq> [])"
      using Some Cons by (simp add: read_pricing_content_from_csv_def Let_def)
    then show ?thesis using Cons a f by simp
  qed
qed

text \<open>
  The theorem at a header with the anchor in column 17 and one row of the club: a result
  is returned, so the file has the anchor column and a matching row.
\<close>

theorem read_pricing_content_from_csv_result_witness:
  "read_pricing_content_from_csv
     [[''Club ID'', ''Club Name'', ''Club Level'', ''Local Name'', ''Local Access'',
       ''Elevate Offering'', ''Add On Fees'', ''H'', ''I'', ''J'', ''K'', ''L'', ''M'', ''N'', ''O'',
       ''Basic Local Network'', ''Fitness Plus Local Network'', ''Lifestyle Local Network''],
      [''101'', ''Rocklin East'', ''Gold'', ''NetA'', ''Full'', ''None'', ''Main Dues MTM'',
       [], [], [], [], [], ''$10'', ''$15'', ''$20'']]
     ''Rocklin East'' =
   Some (''Main Dues MTM: Local Network: Not available | Fitness Plus Local Network: Not available | Lifestyle Network Plus: Not available'', []) \<and>
   (\<exists>header rows.
      [[''Club ID'', ''Club Name'', ''Club Level'', ''Local Name'', ''Local Access'',
        ''Elevate Offering'', ''Add On Fees'', ''H'', ''I'', ''J'', ''K'', ''L'', ''M'', ''N'', ''O'',
        ''Basic Local Network'', ''Fitness Plus Local Network'', ''Lifestyle Local Network''],
       [''101'', ''Rocklin East'', ''Gold'', ''NetA'', ''Full'', ''None'', ''Main Dues MTM'',
        [], [], [], [], [], ''$10'', ''$15'', ''$20'']] = header # rows \<and>
      (\<exists>col\<in>set header. contains col ''Lifestyle Local Network'' \<or>
                           contains col ''Lifestyle Network Plus'') \<and>
      (\<exists>row\<in>set rows. length row > 1 \<and>
         normalize_club_name ''Rocklin East'' = normalize_club_name (py_strip (row ! 1))))"
proof -
  have e: "read_pricing_content_from_csv
     [[''Club ID'', ''Club Name'', ''Club Level'', ''Local Name'', ''Local Access'',
       ''Elevate Offering'', ''Add On Fees'', ''H'', ''I'', ''J'', ''K'', ''L'', ''M'', ''N'', ''O'',
       ''Basic Local Network'', ''Fitness Plus Local Network'', ''Lifestyle Local Network''],
      [''101'', ''Rocklin East'', ''Gold'', ''NetA'', ''Full'', ''None'', ''Main Dues MTM'',
       [], [], [], [], [], ''$10'', ''$15'', ''$20'']]
     ''Rocklin East'' =
   Some (''Main Dues MTM: Local Network: Not available | Fitness Plus Local Network: Not available | Lifestyle Network Plus: Not available'', [])"
    by code_simp
  then have "read_pricing_content_from_csv
     [[''Club ID'', ''Club Name'', ''Club Level'', ''Local Name'', ''Local Access'',
       ''Elevate Offering'', ''Add On Fees'', ''H'', ''I'', ''J'', ''K'', ''L'', ''M'', ''N'', ''O'',
       ''Basic Local Network'', ''Fitness Plus Local Network'', ''Lifestyle Local Network''],
      [''101'', ''Rocklin East'', ''Gold'', ''NetA'', ''Full'', ''None'', ''Main Dues MTM'',
       [], [], [], [], [], ''$10'', ''$15'', ''$20'']]
     ''Rocklin East'' \<noteq> None" by simp
  then show ?thesis
    using e unfolding read_pricing_content_from_csv_result by blast
qed

text \<open>
  The three cases of a cell in the line: an absent or empty core cell is shown as
  \<open>Not available\<close>, any other core cell as its stripped value, and an additional column
  whose value is empty, \<open>-\<close> or \<open>$-\<close> gives no part of the line.
\<close>

lemma empty_core_cell_not_available:
  "length fee_row \<le> i \<or> py_strip (fee_row ! i) = [] \<Longrightarrow>
   or_not_available (cell fee_row i) = ''Not available''"
  by (auto simp: cell_def or_not_available_def)

lemma dash_core_cell_kept:
  "i < length fee_row \<Longrightarrow> py_strip (fee_row ! i) = v \<Longrightarrow> v \<noteq> [] \<Longrightarrow>
   or_not_available (cell fee_row i) = v"
  by (simp add: cell_def or_not_available_def)

lemma empty_additional_part_omitted:
  "py_strip (fee_row ! col_idx) \<in> set [[], ''-'', ''$-''] \<Longrightarrow>
   additional_part fee_row (col_idx, col_name) = None"
  by (auto simp: additional_part_def Let_def)

text \<open>
  C3 at a matched fee row whose first two core tier cells are \<open>-\<close> and \<open>$-\<close>: the line
  shows them as they are. Only the empty third cell becomes \<open>Not available\<close>, and the
  additional column with the value \<open>-\<close> is left out.
\<close>

theorem read_pricing_content_from_csv_keeps_dash:
  "read_pricing_content_from_csv
     [[''Club ID'', ''Club Name'', ''Club Level'', ''Local Name'', ''Local Access'',
       ''Elevate Offering'', ''Add On Fees'', ''H'', ''I'', ''J'', ''K'', ''L'', ''M'', ''N'', ''O'',
       ''Basic Local Network'', ''Fitness Plus Local Network'', ''Lifestyle Local Network'',
       ''Premier - NFC''],
      [''101'', ''Rocklin East'', ''Gold'', ''NetA'', ''Full'', ''None'', ''Main Dues MTM'',
       '''', '''', '''', '''', '''', '''', '''', '''', ''-'', ''$-'', '' '', ''-'']]
     ''CFF: Rocklin_East'' =
   Some (''Main Dues MTM: Local Network: - | Fitness Plus Local Network: $- | Lifestyle Network Plus: Not available'',
         [''Premier - NFC''])"
  by code_simp


section \<open>Properties of build\_club\_mapping\<close>

lemma match_step_other:
  "a \<noteq> t \<Longrightarrow> mapping (match_step names st a) t = mapping st t"
  by (simp add: match_step_def Let_def split: option.splits)

lemma match_step_multi:
  assumes "multi_mappings (normalize_club_name (extract_club_name_from_txt t)) = Some targets"
  shows "mapping (match_step names st t) t =
     (if resolve_targets names targets \<noteq> [] then Some (resolve_targets names targets)
      else mapping st t)"
  using assms by (simp add: match_step_def Let_def)

lemma foldl_match_step_multi:
  assumes "multi_mappings (normalize_club_name (extract_club_name_from_txt t)) = Some targets"
  shows "mapping (foldl (match_step names) st txts) t =
     (if t \<in> set txts \<and> resolve_targets names targets \<noteq> []
      then Some (resolve_targets names targets) else mapping st t)"
proof (induction txts arbitrary: st)
  case Nil
  then show ?case by simp
next
  case (Cons a txts)
  show ?case
  proof (cases "a = t")
    case True
    then show ?thesis using Cons[of "match_step names st t"] match_step_multi[OF assms, of names st]
      by simp
  next
    case False
    then show ?thesis using Cons[of "match_step names st a"] match_step_other[OF False, of names st]
      by auto
  qed
qed

lemma match_step_warnings_mono:
  "set (warnings st) \<subseteq> set (warnings (match_step names st a))"
  by (auto simp: match_step_def Let_def split: option.splits)

lemma foldl_match_step_warnings_mono:
  "set (warnings st) \<subseteq> set (warnings (foldl (match_step names) st txts))"
proof (induction txts arbitrary: st)
  case Nil
  then show ?case by simp
next
  case (Cons a txts)
  then show ?case using match_step_warnings_mono[of st names a] by fastforce
qed

lemma match_step_multi_warns:
  assumes "multi_mappings (normalize_club_name (extract_club_name_from_txt t)) = Some targets"
    and "tg \<in> set targets" and "names tg = None"
  shows "target_warning tg t \<in> set (warnings (match_step names st t))"
  using assms by (auto simp: match_step_def Let_def target_warnings_def)

lemma foldl_match_step_multi_warns:
  assumes "multi_mappings (normalize_club_name (extract_club_name_from_txt t)) = Some targets"
    and "tg \<in> set targets" and "names tg = None"
  shows "t \<in> set txts \<Longrightarrow> target_warning tg t \<in> set (warnings (foldl (match_step names) st txts))"
proof (induction txts arbitrary: st)
  case Nil
  then show ?case by simp
next
  case (Cons a txts)
  show ?case
  proof (cases "a = t")
    case True
    have "target_warning tg t \<in> set (warnings (match_step names st t))"
      using assms by (rule match_step_multi_warns)
    then show ?thesis using True foldl_match_step_warnings_mono[of "match_step names st t" names txts]
      by auto
  next
    case False
    then show ?thesis using Cons by auto
  qed
qed

text \<open>
  C7: a text file whose normalized name is a key of \<open>multi_mappings\<close> is mapped to the
  files of those targets that have one, in the order of the targets, and is left out of
  the mapping only when no target has a file; a warning is printed for every target
  without a file.
\<close>

theorem build_club_mapping_multi:
  assumes "txt_file \<in> set txt_files"
    and "multi_mappings (normalize_club_name (extract_club_name_from_txt txt_file)) = Some targets"
  shows "mapping (build_club_mapping txt_files md_files) txt_file =
           (if List.map_filter (md_name_map md_files) targets = [] then None
            else Some (List.map_filter (md_name_map md_files) targets)) \<and>
         (\<forall>target\<in>set targets. md_name_map md_files target = None \<longrightarrow>
            target_warning target txt_file \<in> set (warnings (build_club_mapping txt_files md_files)))"
proof
  show "mapping (build_club_mapping txt_files md_files) txt_file =
           (if List.map_filter (md_name_map md_files) targets = [] then None
            else Some (List.map_filter (md_name_map md_files) targets))"
    using assms(1) foldl_match_step_multi[OF assms(2), of "md_name_map md_files"
        "\<lparr>mapping = Map.empty, warnings = []\<rparr>" txt_files]
    by (simp add: build_club_mapping_def resolve_targets_def)
next
  show "\<forall>target\<in>set targets. md_name_map md_files target = None \<longrightarrow>
            target_warning target txt_file \<in> set (warnings (build_club_mapping txt_files md_files))"
    using foldl_match_step_multi_warns[OF assms(2) _ _ assms(1)]
    by (simp add: build_club_mapping_def)
qed

text \<open>
  The theorem at a \<open>midtown\<close> text file with only a \<open>downtown\<close> document present: the
  mapping is the one-element list of that document.
\<close>

theorem build_club_mapping_multi_witness:
  "''CFF__Midtown.txt'' \<in> set [''CFF__Midtown.txt'', ''CFF__Napa.txt''] \<and>
   multi_mappings (normalize_club_name (extract_club_name_from_txt ''CFF__Midtown.txt'')) =
     Some [''midtown'', ''downtown''] \<and>
   md_name_map [''www.inshape.com_gyms_downtown-california-95814_clean.md''] ''midtown'' = None \<and>
   mapping (build_club_mapping [''CFF__Midtown.txt'', ''CFF__Napa.txt'']
              [''www.inshape.com_gyms_downtown-california-95814_clean.md'']) ''CFF__Midtown.txt'' =
     Some [''www.inshape.com_gyms_downtown-california-95814_clean.md''] \<and>
   target_warning ''midtown'' ''CFF__Midtown.txt'' \<in>
     set (warnings (build_club_mapping [''CFF__Midtown.txt'', ''CFF__Napa.txt'']
              [''www.inshape.com_gyms_downtown-california-95814_clean.md'']))"
proof -
  have h1: "''CFF__Midtown.txt'' \<in> set [''CFF__Midtown.txt'', ''CFF__Napa.txt'']" by simp
  have h2: "multi_mappings (normalize_club_name (extract_club_name_from_txt ''CFF__Midtown.txt'')) =
     Some [''midtown'', ''downtown'']" by code_simp
  have n1: "md_name_map [''www.inshape.com_gyms_downtown-california-95814_clean.md''] ''midtown'' = None"
    by code_simp
  have n2: "md_name_map [''www.inshape.com_gyms_downtown-california-95814_clean.md''] ''downtown'' =
     Some ''www.inshape.com_gyms_downtown-california-95814_clean.md''"
    by code_simp
  have l: "List.map_filter (md_name_map [''www.inshape.com_gyms_downtown-california-95814_clean.md''])
      [''midtown'', ''downtown''] = [''www.inshape.com_gyms_downtown-california-95814_clean.md'']"
    by (simp add: List.map_filter_def n1 n2)
  show ?thesis
    using build_club_mapping_multi[OF h1 h2,
        of "[''www.inshape.com_gyms_downtown-california-95814_clean.md'']"] h2 n1
    unfolding l by simp
qed

section \<open>Properties of process\_csv\_file\<close>

lemma keys_append_row:
  "map fst (append_row d n r) = (if n \<in> set (map fst d) then map fst d else map fst d @ [n])"
  by (induction d n r rule: append_row.induct) auto

lemma values_append_row:
  "\<forall>(k, rs)\<in>set d. rs \<noteq> [] \<Longrightarrow> \<forall>(k, rs)\<in>set (append_row d n r). rs \<noteq> []"
  by (induction d n r rule: append_row.induct) auto

lemma read_row_keys:
  "map fst (club_data_by_name (read_row st row)) =
     (if counted_row row \<and> py_strip (row ! 1) \<notin> set (map fst (club_data_by_name st))
      then map fst (club_data_by_name st) @ [py_strip (row ! 1)]
      else map fst (club_data_by_name st))"
  by (auto simp: read_row_def counted_row_def Let_def keys_append_row)

lemma read_row_values:
  "\<forall>(k, rs)\<in>set (club_data_by_name st). rs \<noteq> [] \<Longrightarrow>
   \<forall>(k, rs)\<in>set (club_data_by_name (read_row st row)). rs \<noteq> []"
  using values_append_row[of "club_data_by_name st"]
  by (simp add: read_row_def Let_def)

lemma foldl_read_row_keys:
  "distinct (map fst (club_data_by_name st)) \<Longrightarrow>
   distinct (map fst (club_data_by_name (foldl read_row st rows))) \<and>
   set (map fst (club_data_by_name (foldl read_row st rows))) =
     set (map fst (club_data_by_name st)) \<union> {py_strip (row ! 1) | row. row \<in> set rows \<and> counted_row row}"
proof (induction rows arbitrary: st)
  case Nil
  then show ?case by simp
next
  case (Cons a rows)
  have d: "distinct (map fst (club_data_by_name (read_row st a)))"
    using Cons.prems by (simp add: read_row_keys)
  have s: "set (map fst (club_data_by_name (read_row st a))) =
     set (map fst (club_data_by_name st)) \<union> (if counted_row a then {py_strip (a ! 1)} else {})"
    by (auto simp: read_row_keys)
  show ?case using Cons.IH[OF d] unfolding foldl_Cons s by auto
qed

lemma foldl_read_row_values:
  "\<forall>(k, rs)\<in>set (club_data_by_name st). rs \<noteq> [] \<Longrightarrow>
   \<forall>(k, rs)\<in>set (club_data_by_name (foldl read_row st rows)). rs \<noteq> []"
proof (induction rows arbitrary: st)
  case Nil
  then show ?case by simp
next
  case (Cons a rows)
  show ?case unfolding foldl_Cons by (rule Cons.IH) (rule read_row_values[OF Cons.prems])
qed

lemma read_rows_keys:
  "distinct (map fst (club_data_by_name (read_rows rows)))"
  "set (map fst (club_data_by_name (read_rows rows))) =
     {py_strip (row ! 1) | row. row \<in> set rows \<and> counted_row row}"
  using foldl_read_row_keys[of "\<lparr>all_clubs = [], club_data_by_name = []\<rparr>" rows]
  by (simp_all add: read_rows_def)

lemma read_rows_values:
  "\<forall>(k, rs)\<in>set (club_data_by_name (read_rows rows)). rs \<noteq> []"
  unfolding read_rows_def by (rule foldl_read_row_values) simp

lemma club_block_header:
  assumes "club_name \<in> set (sorted_club_names rows)"
  shows "\<exists>rest. club_block headers rows club_name = (''Club Name: '' @ club_name) # rest"
proof -
  have "club_name \<in> set (map fst (club_data_by_name (read_rows rows)))"
    using assms by (simp add: sorted_club_names_def)
  then obtain rs where m: "map_of (club_data_by_name (read_rows rows)) club_name = Some rs"
    by (metis map_of_eq_None_iff not_Some_eq set_map)
  then have "(club_name, rs) \<in> set (club_data_by_name (read_rows rows))" by (rule map_of_SomeD)
  then have "rs \<noteq> []" using read_rows_values[of rows] by auto
  then obtain first_row rest where "rs = first_row # rest" by (cases rs) auto
  then show ?thesis using m by (simp add: club_block_def club_lines_def Let_def)
qed

text \<open>
  C9: the output of \<open>process_csv_file\<close> is the blocks of the clubs in the order of
  \<open>sorted_club_names\<close>, which is strictly ascending in the order of the strings, holds
  exactly the stripped club names of the rows that are read, and does not depend on the
  order of the rows; each block begins with the \<open>Club Name: \<close> line of its club.
\<close>

theorem process_csv_file_sorted:
  "process_csv_file (headers # rows) =
     join [nl] (concat (map (club_block headers rows) (sorted_club_names rows))) \<and>
   sorted (sorted_club_names rows) \<and> distinct (sorted_club_names rows) \<and>
   set (sorted_club_names rows) =
     {py_strip (row ! 1) | row. row \<in> set rows \<and> 15 \<le> length row \<and>
        py_strip (row ! 1) \<noteq> [] \<and> py_strip (row ! 1) \<noteq> ''Club Name''} \<and>
   (\<forall>club_name\<in>set (sorted_club_names rows).
      \<exists>rest. club_block headers rows club_name = (''Club Name: '' @ club_name) # rest) \<and>
   (set rows' = set rows \<longrightarrow> sorted_club_names rows' = sorted_club_names rows)"
proof (intro conjI)
  show "process_csv_file (headers # rows) =
     join [nl] (concat (map (club_block headers rows) (sorted_club_names rows)))"
    by (simp add: process_csv_file_def)
  show "sorted (sorted_club_names rows)" by (simp add: sorted_club_names_def)
  show "distinct (sorted_club_names rows)" by (simp add: sorted_club_names_def read_rows_keys(1))
  show "set (sorted_club_names rows) =
     {py_strip (row ! 1) | row. row \<in> set rows \<and> 15 \<le> length row \<and>
        py_strip (row ! 1) \<noteq> [] \<and> py_strip (row ! 1) \<noteq> ''Club Name''}"
    by (simp add: sorted_club_names_def read_rows_keys(2) counted_row_def del: set_map)
  show "\<forall>club_name\<in>set (sorted_club_names rows).
      \<exists>rest. club_block headers rows club_name = (''Club Name: '' @ club_name) # rest"
    using club_block_header by blast
  show "set rows' = set rows \<longrightarrow> sorted_club_names rows' = sorted_club_names rows"
  proof
    assume e: "set rows' = set rows"
    have e': "set (sorted_club_names rows') = set (sorted_club_names rows)"
      by (simp add: sorted_club_names_def read_rows_keys(2) e del: set_map)
    have s1: "sorted (sorted_club_names rows')" and s2: "sorted (sorted_club_names rows)"
      by (simp_all add: sorted_club_names_def)
    have d1: "distinct (sorted_club_names rows')" and d2: "distinct (sorted_club_names rows)"
      by (simp_all add: sorted_club_names_def read_rows_keys(1))
    show "sorted_club_names rows' = sorted_club_names rows"
      by (rule sorted_distinct_set_unique[OF s1 d1 s2 d2 e'])
  qed
qed


text \<open>
  The theorem at two rows given in descending order of their clubs, and at the same rows
  swapped: both are emitted in ascending order.
\<close>

theorem process_csv_file_sorted_witness:
  "sorted_club_names
     [[''102'', ''Rocklin East'', ''Gold'', ''NetA'', ''Full'', ''None'', ''Main Dues MTM'',
       [], [], [], [], [], ''$10'', ''-'', ''$20''],
      [''101'', ''Auburn'', ''Gold'', ''NetA'', ''Full'', ''Yes'', ''Member Type'',
       [], [], [], [], [], ''A'', '' '', ''C'']] = [''Auburn'', ''Rocklin East''] \<and>
   (\<exists>rest. club_block [''Club ID'', ''Club Name'']
     [[''102'', ''Rocklin East'', ''Gold'', ''NetA'', ''Full'', ''None'', ''Main Dues MTM'',
       [], [], [], [], [], ''$10'', ''-'', ''$20''],
      [''101'', ''Auburn'', ''Gold'', ''NetA'', ''Full'', ''Yes'', ''Member Type'',
       [], [], [], [], [], ''A'', '' '', ''C'']] ''Auburn'' = ''Club Name: Auburn'' # rest) \<and>
   sorted_club_names
     [[''101'', ''Auburn'', ''Gold'', ''NetA'', ''Full'', ''Yes'', ''Member Type'',
       [], [], [], [], [], ''A'', '' '', ''C''],
      [''102'', ''Rocklin East'', ''Gold'', ''NetA'', ''Full'', ''None'', ''Main Dues MTM'',
       [], [], [], [], [], ''$10'', ''-'', ''$20'']] = [''Auburn'', ''Rocklin East'']"
proof -
  let ?r1 = "[''102'', ''Rocklin East'', ''Gold'', ''NetA'', ''Full'', ''None'', ''Main Dues MTM'',
       [], [], [], [], [], ''$10'', ''-'', ''$20'']"
  let ?r2 = "[''101'', ''Auburn'', ''Gold'', ''NetA'', ''Full'', ''Yes'', ''Member Type'',
       [], [], [], [], [], ''A'', '' '', ''C'']"
  have e: "sorted_club_names [?r1, ?r2] = [''Auburn'', ''Rocklin East'']" by code_simp
  have sw: "\<And>a b :: csv_row. set [a, b] = set [b, a]" by auto
  have p: "set [?r2, ?r1] = set [?r1, ?r2]" by (rule sw)
  note t = process_csv_file_sorted[of "[''Club ID'', ''Club Name'']" "[?r1, ?r2]" "[?r2, ?r1]"]
  have b: "\<exists>rest. club_block [''Club ID'', ''Club Name''] [?r1, ?r2] ''Auburn'' = (''Club Name: '' @ ''Auburn'') # rest"
    using t unfolding e by simp
  have q: "sorted_club_names [?r2, ?r1] = sorted_club_names [?r1, ?r2]"
    using t p by blast
  show ?thesis using e b q by simp
qed

section \<open>Properties of read\_pricing\_content\_from\_txt\<close>

lemma startswith_Nil [simp]: "startswith s []"
  by (simp add: startswith_def)

lemma startswith_Cons:
  "startswith (c # cs) (p # ps) \<longleftrightarrow> c = p \<and> startswith cs ps"
  by (simp add: startswith_def)

lemma startswith_Nil_left: "startswith [] (p # ps) = False"
  by (simp add: startswith_def)

lemma lit_match_plain:
  "\<not> ignorecase f \<Longrightarrow>
   lit_match f l s = (if startswith s l then Some (drop (length l) s) else None)"
  by (induction f l s rule: lit_match.induct)
     (auto simp: startswith_Cons startswith_Nil_left ch_eq_def)

lemma star_lazy_first:
  assumes "Q []"
  shows "\<exists>n\<le>length s.
           star_lazy (\<lambda>c. True) i s (\<lambda>j r. if Q r then Some j else None) = Some (i + n) \<and>
           Q (drop n s)"
proof (induction s arbitrary: i)
  case Nil
  then show ?case using assms by simp
next
  case (Cons c cs)
  show ?case
  proof (cases "Q (c # cs)")
    case True
    then show ?thesis by (intro exI[of _ 0]) simp
  next
    case False
    from Cons[of "Suc i"] obtain n where
      n: "n \<le> length cs"
         "star_lazy (\<lambda>c. True) (Suc i) cs (\<lambda>j r. if Q r then Some j else None) = Some (Suc i + n)"
         "Q (drop n cs)"
      by blast
    show ?thesis using False n by (intro exI[of _ "Suc n"]) simp
  qed
qed

lemma star_greedy_split:
  "star_greedy p i s (\<lambda>j r. if Q r then Some j else None) = Some e \<Longrightarrow>
   \<exists>n\<le>length s. (\<forall>c\<in>set (take n s). p c) \<and> Q (drop n s)"
proof (induction s arbitrary: i)
  case Nil
  then show ?case by (simp split: if_splits)
next
  case (Cons c cs)
  show ?case
  proof (cases "Q (c # cs)")
    case True
    then show ?thesis by (intro exI[of _ 0]) simp
  next
    case False
    with Cons.prems have pc: "p c"
      and r: "star_greedy p (Suc i) cs (\<lambda>j r. if Q r then Some j else None) = Some e"
      by (auto split: if_splits option.splits)
    from Cons.IH[OF r] obtain n where "n \<le> length cs" "\<forall>c\<in>set (take n cs). p c" "Q (drop n cs)"
      by blast
    then show ?thesis using pc by (intro exI[of _ "Suc n"]) simp
  qed
qed

lemma is_space_nl: "is_space nl"
  by (simp add: is_space_def nl_def)

lemma tail_rx_Nil: "match_at tail_rx f j [] = Some j"
  by (simp add: tail_rx_def match_at_def)

lemma tail_rx_sound:
  assumes "match_at tail_rx dotall_flags j r = Some e"
  shows "\<forall>c\<in>set r. is_space c"
proof (cases r)
  case Nil
  then show ?thesis by simp
next
  case (Cons c cs)
  have nm: "\<not> multiline dotall_flags" "\<not> ignorecase dotall_flags"
    by (simp_all add: dotall_flags_def)
  from assms Cons have c: "c = nl"
    and g: "star_greedy is_space (Suc j) cs
              (\<lambda>j r. if at_dollar dotall_flags r then Some j else None) = Some e"
    by (auto simp: tail_rx_def match_at_def ch_eq_def nm cc_match_Space
        split: option.splits if_splits)
  from star_greedy_split[OF g] obtain n where
    n: "\<forall>c\<in>set (take n cs). is_space c" "at_dollar dotall_flags (drop n cs)"
    by blast
  from n(2) have "\<forall>c\<in>set (drop n cs). is_space c"
    by (auto simp: at_dollar_def nm is_space_nl)
  moreover have "set cs = set (take n cs) \<union> set (drop n cs)"
    by (metis append_take_drop_id set_append)
  ultimately have "\<forall>c\<in>set cs. is_space c" using n(1) by blast
  then show ?thesis using c Cons is_space_nl by simp
qed

lemma match_at_member_block:
  "match_at rx_member_block dotall_flags i s =
     (if startswith s ''Member Type:''
      then star_lazy (\<lambda>c. True) (i + 12) (drop 12 s)
             (\<lambda>j r. if match_at tail_rx dotall_flags j r \<noteq> None then Some j else None)
      else None)"
proof -
  have d: "cc_match dotall_flags Dot = (\<lambda>c. True)"
    by (rule ext) (simp add: dotall_flags_def)
  have k: "(\<lambda>j r. case rx_match tail_rx dotall_flags j r (\<lambda>j r. Some j) of
                     None \<Rightarrow> None | Some e \<Rightarrow> Some j) =
           (\<lambda>j r. if match_at tail_rx dotall_flags j r \<noteq> None then Some j else None)"
    by (intro ext) (simp add: match_at_def split: option.splits)
  have ni: "\<not> ignorecase dotall_flags" by (simp add: dotall_flags_def)
  have "match_at rx_member_block dotall_flags i s =
     (case lit_match dotall_flags ''Member Type:'' s of
        None \<Rightarrow> None
      | Some r \<Rightarrow>
          star_lazy (cc_match dotall_flags Dot) (i + length ''Member Type:'') r
            (\<lambda>j r. case rx_match tail_rx dotall_flags j r (\<lambda>j r. Some j) of
                     None \<Rightarrow> None | Some e \<Rightarrow> Some j))"
    by (simp add: match_at_def rx_member_block_def del: lit_match.simps)
  also have "\<dots> =
     (case (if startswith s ''Member Type:'' then Some (drop (length ''Member Type:'') s) else None) of
        None \<Rightarrow> None
      | Some r \<Rightarrow>
          star_lazy (\<lambda>c. True) (i + length ''Member Type:'') r
            (\<lambda>j r. if match_at tail_rx dotall_flags j r \<noteq> None then Some j else None))"
    by (simp only: lit_match_plain[OF ni] d k)
  also have "\<dots> =
     (if startswith s ''Member Type:''
      then star_lazy (\<lambda>c. True) (i + 12) (drop 12 s)
             (\<lambda>j r. if match_at tail_rx dotall_flags j r \<noteq> None then Some j else None)
      else None)"
  proof -
    have l: "length ''Member Type:'' = 12" by simp
    show ?thesis
      by (cases "startswith s ''Member Type:''") (simp_all only: l if_True if_False option.case)
  qed
  finally show ?thesis .
qed

lemma star_greedy_shift:
  "(star_greedy p i s (\<lambda>j r. if Q r then Some j else None) \<noteq> None) =
   (star_greedy p i' s (\<lambda>j r. if Q r then Some j else None) \<noteq> None)"
proof (induction s arbitrary: i i')
  case Nil
  then show ?case by simp
next
  case (Cons c cs)
  show ?case using Cons[of "Suc i" "Suc i'"] by (auto split: option.splits)
qed

lemma match_at_tail_shift:
  "(match_at tail_rx f j r \<noteq> None) = (match_at tail_rx f 0 r \<noteq> None)"
proof (cases r)
  case Nil
  then show ?thesis by (simp add: tail_rx_Nil)
next
  case (Cons c cs)
  show ?thesis
    using star_greedy_shift[of is_space "Suc j" cs "at_dollar f" "Suc 0"]
    by (auto simp: Cons tail_rx_def match_at_def cc_match_Space split: option.splits if_splits)
qed

lemma member_block_search:
  "(search_from rx_member_block dotall_flags i s = None \<and>
      find_from i ''Member Type:'' s = None) \<or>
   (\<exists>j e. search_from rx_member_block dotall_flags i s = Some (j, e) \<and>
      find_from i ''Member Type:'' s = Some j \<and> i \<le> j \<and> j \<le> e \<and>
      (\<forall>c\<in>set (drop (e - i) s). is_space c))"
proof (induction s arbitrary: i)
  case Nil
  then show ?case by (simp add: match_at_member_block startswith_Nil_left)
next
  case (Cons c cs)
  show ?case
  proof (cases "startswith (c # cs) ''Member Type:''")
    case True
    define Q where "Q = (\<lambda>r. match_at tail_rx dotall_flags 0 r \<noteq> None)"
    have k: "(\<lambda>j r. if match_at tail_rx dotall_flags j r \<noteq> None then Some j else None) =
             (\<lambda>j r. if Q r then Some j else None)"
    proof (intro ext)
      fix j r
      show "(if match_at tail_rx dotall_flags j r \<noteq> None then Some j else None) =
            (if Q r then Some j else None)"
        unfolding Q_def using match_at_tail_shift[of dotall_flags j r] by auto
    qed
    have "Q []" by (simp add: Q_def tail_rx_Nil)
    from star_lazy_first[of Q "drop 12 (c # cs)" "i + 12", OF this] obtain n where
      n: "star_lazy (\<lambda>c. True) (i + 12) (drop 12 (c # cs)) (\<lambda>j r. if Q r then Some j else None) =
            Some (i + 12 + n)"
         "Q (drop n (drop 12 (c # cs)))"
      by blast
    have m: "match_at rx_member_block dotall_flags i (c # cs) = Some (i + 12 + n)"
      using True n(1) by (simp only: match_at_member_block k if_True)
    obtain e where e: "match_at tail_rx dotall_flags 0 (drop n (drop 12 (c # cs))) = Some e"
      using n(2) by (auto simp: Q_def)
    have "\<forall>x\<in>set (drop n (drop 12 (c # cs))). is_space x"
      by (rule tail_rx_sound[OF e])
    then have sp: "\<forall>x\<in>set (drop (n + 12) (c # cs)). is_space x"
      by (simp only: drop_drop)
    have s: "search_from rx_member_block dotall_flags i (c # cs) = Some (i, i + 12 + n)"
      using m by simp
    have d: "drop (i + 12 + n - i) (c # cs) = drop (n + 12) (c # cs)"
      by (simp add: add.commute)
    have f: "find_from i ''Member Type:'' (c # cs) = Some i" using True by simp
    have "search_from rx_member_block dotall_flags i (c # cs) = Some (i, i + 12 + n) \<and>
      find_from i ''Member Type:'' (c # cs) = Some i \<and> i \<le> i \<and> i \<le> i + 12 + n \<and>
      (\<forall>x\<in>set (drop (i + 12 + n - i) (c # cs)). is_space x)"
      using s f sp unfolding d by simp
    then show ?thesis by blast
  next
    case False
    then have m: "match_at rx_member_block dotall_flags i (c # cs) = None"
      by (simp add: match_at_member_block)
    from Cons[of "Suc i"] show ?thesis
    proof
      assume "search_from rx_member_block dotall_flags (Suc i) cs = None \<and>
        find_from (Suc i) ''Member Type:'' cs = None"
      then show ?thesis using m False by simp
    next
      assume "\<exists>j e. search_from rx_member_block dotall_flags (Suc i) cs = Some (j, e) \<and>
        find_from (Suc i) ''Member Type:'' cs = Some j \<and> Suc i \<le> j \<and> j \<le> e \<and>
        (\<forall>c\<in>set (drop (e - Suc i) cs). is_space c)"
      then obtain j e where
        a: "search_from rx_member_block dotall_flags (Suc i) cs = Some (j, e)"
           "find_from (Suc i) ''Member Type:'' cs = Some j" "Suc i \<le> j" "j \<le> e"
           "\<forall>c\<in>set (drop (e - Suc i) cs). is_space c"
        by blast
      have "e - i = Suc (e - Suc i)" using a(3,4) by arith
      then have d: "drop (e - i) (c # cs) = drop (e - Suc i) cs" by simp
      have "search_from rx_member_block dotall_flags i (c # cs) = Some (j, e) \<and>
        find_from i ''Member Type:'' (c # cs) = Some j \<and> i \<le> j \<and> j \<le> e \<and>
        (\<forall>x\<in>set (drop (e - i) (c # cs)). is_space x)"
        using a m False unfolding d by simp
      then show ?thesis by blast
    qed
  qed
qed


lemma py_strip_drop_spaces:
  assumes "\<forall>c\<in>set w. is_space c"
  shows "py_strip (a @ w) = py_strip a"
proof -
  have "dropWhile is_space (rev w @ rev a) = dropWhile is_space (rev a)"
    using assms by (intro dropWhile_append2) simp
  then show ?thesis by (simp add: py_strip_def)
qed

text \<open>
  C8, as amended: on a text that contains \<open>Member Type:\<close> the extractor returns the text
  from the first occurrence to the end of the text, stripped of the whitespace around it;
  on any other text it returns \<open>None\<close>. A blank line inside the text does not end the
  block.
\<close>

theorem read_pricing_content_from_txt_to_end:
  "read_pricing_content_from_txt doc =
     (case py_find doc ''Member Type:'' of
        None \<Rightarrow> None
      | Some i \<Rightarrow> Some (py_strip (drop i doc)))"
proof -
  from member_block_search[of 0 doc] show ?thesis
  proof
    assume "search_from rx_member_block dotall_flags 0 doc = None \<and>
      find_from 0 ''Member Type:'' doc = None"
    then show ?thesis
      by (simp add: read_pricing_content_from_txt_def re_search_def py_find_def)
  next
    assume "\<exists>j e. search_from rx_member_block dotall_flags 0 doc = Some (j, e) \<and>
      find_from 0 ''Member Type:'' doc = Some j \<and> 0 \<le> j \<and> j \<le> e \<and>
      (\<forall>c\<in>set (drop (e - 0) doc). is_space c)"
    then obtain j e where
      s: "search_from rx_member_block dotall_flags 0 doc = Some (j, e)"
      and f: "find_from 0 ''Member Type:'' doc = Some j"
      and le: "j \<le> e" and sp: "\<forall>c\<in>set (drop e doc). is_space c"
      by auto
    have "drop j doc = take (e - j) (drop j doc) @ drop (e - j) (drop j doc)"
      by (rule append_take_drop_id[symmetric])
    also have "drop (e - j) (drop j doc) = drop e doc" using le by simp
    finally have "drop j doc = slice doc j e @ drop e doc"
      by (simp add: slice_def)
    then have "py_strip (drop j doc) = py_strip (slice doc j e)"
      using py_strip_drop_spaces[OF sp, of "slice doc j e"] by simp
    then show ?thesis using s f
      by (simp add: read_pricing_content_from_txt_def re_search_def py_find_def)
  qed
qed

text \<open>
  C8 as stated fails: the block of this text goes on past the blank line after
  \<open>Member Type: Gold\<close>.
\<close>

theorem read_pricing_content_from_txt_past_blank_line:
  "read_pricing_content_from_txt
     (''Club Name: Auburn'' @ [nl, nl] @ ''Pricing Details:'' @ [nl] @ ''Member Type: Gold'' @
      [nl, nl] @ ''Network Name: NetA'' @ [nl]) =
   Some (''Member Type: Gold'' @ [nl, nl] @ ''Network Name: NetA'')"
  by code_simp

section \<open>Properties of replace\_pricing\_section\_in\_md\<close>

lemma star_greedy_mono:
  assumes "\<And>j r e. k j r = Some e \<Longrightarrow> j \<le> e"
  shows "star_greedy p i s k = Some e \<Longrightarrow> i \<le> e"
proof (induction s arbitrary: i)
  case Nil
  then show ?case using assms by simp
next
  case (Cons c cs)
  then show ?case using assms
    by (fastforce split: if_splits option.splits dest: Suc_leD)
qed

lemma star_lazy_mono:
  assumes "\<And>j r e. k j r = Some e \<Longrightarrow> j \<le> e"
  shows "star_lazy p i s k = Some e \<Longrightarrow> i \<le> e"
proof (induction s arbitrary: i)
  case Nil
  then show ?case using assms by simp
next
  case (Cons c cs)
  then show ?case using assms
    by (fastforce split: if_splits option.splits dest: Suc_leD)
qed

lemma rx_match_mono:
  "(\<And>j r e. k j r = Some e \<Longrightarrow> j \<le> e) \<Longrightarrow> rx_match r f i s k = Some e \<Longrightarrow> i \<le> e"
proof (induction r arbitrary: i s k e)
  case (Lit l)
  from Lit(2) obtain t where "k (i + length l) t = Some e" by (auto split: option.splits)
  then have "i + length l \<le> e" by (rule Lit(1))
  then show ?case by simp
next
  case (Cls c)
  from Cls(2) obtain t where "k (Suc i) t = Some e" by (auto split: list.splits if_splits)
  then have "Suc i \<le> e" by (rule Cls(1))
  then show ?case by simp
next
  case (Star c)
  then show ?case using star_greedy_mono[of k] by simp
next
  case (StarLazy c)
  then show ?case using star_lazy_mono[of k] by simp
next
  case (Seq a b)
  have kb: "\<And>j r e. rx_match b f j r k = Some e \<Longrightarrow> j \<le> e"
  proof -
    fix j r e
    assume m: "rx_match b f j r k = Some e"
    show "j \<le> e"
    proof (rule Seq.IH(2)[of k])
      show "\<And>j r e. k j r = Some e \<Longrightarrow> j \<le> e" by (rule Seq.prems(1))
      show "rx_match b f j r k = Some e" by (rule m)
    qed
  qed
  from Seq.prems(2) have m: "rx_match a f i s (\<lambda>j r. rx_match b f j r k) = Some e" by simp
  show ?case
  proof (rule Seq.IH(1)[of "\<lambda>j r. rx_match b f j r k"])
    show "\<And>j r e. rx_match b f j r k = Some e \<Longrightarrow> j \<le> e" by (rule kb)
    show "rx_match a f i s (\<lambda>j r. rx_match b f j r k) = Some e" by (rule m)
  qed
next
  case (Alt a b)
  show ?case
  proof (cases "rx_match a f i s k")
    case None
    then have "rx_match b f i s k = Some e" using Alt.prems(2) by simp
    then show ?thesis by (rule Alt.IH(2)[rotated]) (rule Alt.prems(1))
  next
    case (Some e')
    then have "rx_match a f i s k = Some e" using Alt.prems(2) by simp
    then show ?thesis by (rule Alt.IH(1)[rotated]) (rule Alt.prems(1))
  qed
next
  case (Look a)
  from Look.prems(2) have "k i s = Some e" by (simp split: option.splits)
  then show ?case by (rule Look.prems(1))
next
  case Bol
  from Bol(2) have "k i s = Some e" by (simp split: if_splits)
  then show ?case by (rule Bol(1))
next
  case Dollar
  from Dollar(2) have "k i s = Some e" by (simp split: if_splits)
  then show ?case by (rule Dollar(1))
next
  case Eos
  from Eos(2) have "k i s = Some e" by (simp split: if_splits)
  then show ?case by (rule Eos(1))
qed

lemma search_from_sound:
  "search_from r f i t = Some (s, e) \<Longrightarrow>
   i \<le> s \<and> s \<le> i + length t \<and> match_at r f s (drop (s - i) t) = Some e"
proof (induction r f i t rule: search_from.induct)
  case (1 r f i)
  then show ?case by (auto split: option.splits)
next
  case (2 r f i c cs)
  show ?case
  proof (cases "match_at r f i (c # cs)")
    case None
    with 2 have a: "Suc i \<le> s" "s \<le> Suc i + length cs"
      "match_at r f s (drop (s - Suc i) cs) = Some e"
      by auto
    have "s - i = Suc (s - Suc i)" using a(1) by arith
    then show ?thesis using a by simp
  next
    case (Some e')
    then show ?thesis using 2(2) by simp
  qed
qed

lemma pricing_block_nonempty:
  assumes "re_search rx_pricing_block dotall_flags doc = Some (s, e)"
  shows "slice doc s e \<noteq> []"
proof -
  from assms have m: "match_at rx_pricing_block dotall_flags s (drop s doc) = Some e"
    using search_from_sound[of rx_pricing_block dotall_flags 0 doc s e] by (simp add: re_search_def)
  obtain rest where r: "rx_pricing_block = Seq (Lit ''Member Type:'') rest"
    by (simp add: rx_pricing_block_def)
  from m obtain t where
    l: "lit_match dotall_flags ''Member Type:'' (drop s doc) = Some t"
    and k: "rx_match rest dotall_flags (s + length ''Member Type:'') t (\<lambda>j r. Some j) = Some e"
    unfolding r match_at_def by (auto split: option.splits simp del: lit_match.simps)
  have "s + length ''Member Type:'' \<le> e"
    using rx_match_mono[OF _ k] by simp
  then have "s < e" by simp
  moreover have "drop s doc \<noteq> []" using l by auto
  ultimately show ?thesis by (simp add: slice_def)
qed

lemma pieces_nonempty: "pieces s sep \<noteq> []"
  by (induction s sep rule: pieces.induct) (auto split: list.splits)

lemma join_Cons_Cons: "ps \<noteq> [] \<Longrightarrow> join sep (p # ps) = p @ sep @ join sep ps"
  by (cases ps) auto

lemma join_hd_Cons: "join sep ((c # p) # ps) = c # join sep (p # ps)"
  by (cases ps) auto

lemma py_replace_pieces:
  "old \<noteq> [] \<Longrightarrow> py_replace s old new = join new (pieces s old)"
proof (induction s old rule: pieces.induct)
  case (1 sep)
  then show ?case by simp
next
  case (2 c cs sep)
  show ?case
  proof (cases "startswith (c # cs) sep")
    case True
    then show ?thesis using 2 by (simp add: join_Cons_Cons pieces_nonempty)
  next
    case False
    obtain p ps where p: "pieces cs sep = p # ps" using pieces_nonempty[of cs sep] by (cases "pieces cs sep") auto
    then show ?thesis using 2 False by (simp add: join_hd_Cons)
  qed
qed

lemma startswith_append_drop: "startswith s p \<Longrightarrow> p @ drop (length p) s = s"
  by (metis append_take_drop_id startswith_def)

lemma join_pieces: "sep \<noteq> [] \<Longrightarrow> join sep (pieces s sep) = s"
proof (induction s sep rule: pieces.induct)
  case (1 sep)
  then show ?case by simp
next
  case (2 c cs sep)
  show ?case
  proof (cases "startswith (c # cs) sep")
    case True
    then show ?thesis using 2 startswith_append_drop[OF True]
      by (simp add: join_Cons_Cons pieces_nonempty)
  next
    case False
    obtain p ps where p: "pieces cs sep = p # ps" using pieces_nonempty[of cs sep] by (cases "pieces cs sep") auto
    then show ?thesis using 2 False by (simp add: join_hd_Cons)
  qed
qed


lemma find_from_shift: "(find_from i sub s = None) = (find_from j sub s = None)"
  by (induction s arbitrary: i j) auto

lemma contains_Nil: "contains [] sub = (sub = [])"
  by (simp add: contains_def py_find_def)

lemma contains_Cons: "contains (c # p) sub = (startswith (c # p) sub \<or> contains p sub)"
proof (cases "startswith (c # p) sub")
  case True
  then show ?thesis by (simp add: contains_def py_find_def)
next
  case False
  then show ?thesis
    by (simp add: contains_def py_find_def find_from_shift[of "Suc 0" sub p 0] del: not_None_eq)
qed

lemma pieces_first_prefix:
  assumes "sep \<noteq> []" and "pieces cs sep = p # ps"
  shows "\<exists>t. cs = p @ t"
proof -
  have "cs = join sep (p # ps)" using join_pieces[OF assms(1), of cs] assms(2) by simp
  then show ?thesis by (cases ps) auto
qed

lemma startswith_extend: "startswith a sep \<Longrightarrow> startswith (a @ t) sep"
  by (auto simp: startswith_def) (metis append_eq_conv_conj take_append take_all_iff le_cases length_take min.absorb2 append.right_neutral take_all)

lemma pieces_free:
  "sep \<noteq> [] \<Longrightarrow> \<forall>p\<in>set (pieces s sep). \<not> contains p sep"
proof (induction s sep rule: pieces.induct)
  case (1 sep)
  then show ?case by (simp add: contains_Nil)
next
  case (2 c cs sep)
  show ?case
  proof (cases "startswith (c # cs) sep")
    case True
    then show ?thesis using 2 by (simp add: contains_Nil)
  next
    case False
    obtain p ps where p: "pieces cs sep = p # ps"
      using pieces_nonempty[of cs sep] by (cases "pieces cs sep") auto
    obtain t where t: "cs = p @ t" using pieces_first_prefix[OF 2(3) p] by blast
    have "\<not> startswith (c # p) sep"
      using False startswith_extend[of "c # p" sep t] t by auto
    moreover have "\<forall>q\<in>set (p # ps). \<not> contains q sep" using 2(2) False 2(3) p by simp
    ultimately show ?thesis using False p by (simp add: contains_Cons)
  qed
qed

text \<open>
  C4, as amended: when the pricing-block pattern matches, the matched span is not empty
  and the text written back is the document with every occurrence of that span replaced
  by the new content: the document is its pieces joined by the span, no piece holds the
  span, and the result is the same pieces joined by the new content.
\<close>

theorem replace_pricing_section_replaces_all:
  assumes "re_search rx_pricing_block dotall_flags doc = Some (s, e)"
  shows "slice doc s e \<noteq> [] \<and>
         doc = join (slice doc s e) (pieces doc (slice doc s e)) \<and>
         (\<forall>p\<in>set (pieces doc (slice doc s e)). \<not> contains p (slice doc s e)) \<and>
         replace_pricing_section_in_md doc new = Some (join new (pieces doc (slice doc s e)))"
proof -
  have ne: "slice doc s e \<noteq> []" using assms by (rule pricing_block_nonempty)
  show ?thesis
    using ne join_pieces[OF ne, of doc] pieces_free[OF ne, of doc] py_replace_pieces[OF ne, of doc new] assms
    by (simp add: replace_pricing_section_in_md_def)
qed

text \<open>The amended statement at a document that holds the same pricing block twice.\<close>

theorem replace_pricing_section_replaces_all_witness:
  "re_search rx_pricing_block dotall_flags
     (''Member Type: A'' @ [nl] @ ''SILVER SNEAKERS: available'' @ [nl, nl] @ ''[Get Started](u)'' @ [nl] @
      ''Member Type: A'' @ [nl] @ ''SILVER SNEAKERS: available'') = Some (0, 41) \<and>
   slice (''Member Type: A'' @ [nl] @ ''SILVER SNEAKERS: available'' @ [nl, nl] @ ''[Get Started](u)'' @ [nl] @
      ''Member Type: A'' @ [nl] @ ''SILVER SNEAKERS: available'') 0 41 \<noteq> [] \<and>
   replace_pricing_section_in_md
     (''Member Type: A'' @ [nl] @ ''SILVER SNEAKERS: available'' @ [nl, nl] @ ''[Get Started](u)'' @ [nl] @
      ''Member Type: A'' @ [nl] @ ''SILVER SNEAKERS: available'') ''Member Type: B'' =
   Some (join ''Member Type: B''
     (pieces (''Member Type: A'' @ [nl] @ ''SILVER SNEAKERS: available'' @ [nl, nl] @ ''[Get Started](u)'' @ [nl] @
        ''Member Type: A'' @ [nl] @ ''SILVER SNEAKERS: available'')
       (slice (''Member Type: A'' @ [nl] @ ''SILVER SNEAKERS: available'' @ [nl, nl] @ ''[Get Started](u)'' @ [nl] @
        ''Member Type: A'' @ [nl] @ ''SILVER SNEAKERS: available'') 0 41)))"
proof -
  have h: "re_search rx_pricing_block dotall_flags
     (''Member Type: A'' @ [nl] @ ''SILVER SNEAKERS: available'' @ [nl, nl] @ ''[Get Started](u)'' @ [nl] @
      ''Member Type: A'' @ [nl] @ ''SILVER SNEAKERS: available'') = Some (0, 41)"
    by code_simp
  show ?thesis
    using replace_pricing_section_replaces_all[OF h, of "''Member Type: B''"] h by blast
qed

text \<open>
  C4 as stated fails: in a document that holds the matched span twice, the later
  occurrence is replaced as well.
\<close>

theorem replace_pricing_section_replaces_later_occurrence:
  "replace_pricing_section_in_md
     (''Member Type: A'' @ [nl] @ ''SILVER SNEAKERS: available'' @ [nl, nl] @ ''[Get Started](u)'' @ [nl] @
      ''Member Type: A'' @ [nl] @ ''SILVER SNEAKERS: available'') ''Member Type: B'' =
   Some (''Member Type: B'' @ [nl, nl] @ ''[Get Started](u)'' @ [nl] @ ''Member Type: B'')"
  by code_simp

section \<open>Properties of replace\_enhancement\_fee\_text\<close>

lemma contains_right: "contains m sub \<Longrightarrow> contains (m @ y) sub"
proof (induction m)
  case Nil
  then show ?case by (cases y) (simp_all add: contains_Nil contains_Cons)
next
  case (Cons c m)
  then show ?case using startswith_extend[of "c # m" sub y]
    by (auto simp: contains_Cons)
qed

lemma contains_left: "contains m sub \<Longrightarrow> contains (x @ m) sub"
  by (induction x) (simp_all add: contains_Cons)

lemma contains_middle: "contains m sub \<Longrightarrow> contains (x @ m @ y) sub"
  by (intro contains_left contains_right)

lemma new_text_signatures:
  "contains new_enhancement_fee_text ''$49.95 for the first member''"
  "contains new_enhancement_fee_text ''$89.95 for all memberships''"
  by code_simp+

lemma splice_signatures:
  "contains (splice doc st ep) ''$49.95 for the first member''"
  "contains (splice doc st ep) ''$89.95 for all memberships''"
  unfolding splice_def
  by (intro contains_middle contains_right new_text_signatures)+

lemma replace_enhancement_fee_text_shape:
  "replace_enhancement_fee_text doc = (False, doc) \<or>
   (replace_enhancement_fee_text doc = (True, doc) \<and>
      contains doc ''$49.95 for the first member'' \<and>
      contains doc ''$89.95 for all memberships'') \<or>
   (\<exists>st ep. replace_enhancement_fee_text doc = (True, splice doc st ep))"
proof (cases "contains doc ''$49.95 for the first member'' \<and>
              contains doc ''$89.95 for all memberships''")
  case True
  then show ?thesis by (simp add: replace_enhancement_fee_text_def)
next
  case current: False
  show ?thesis
  proof (cases "py_find (py_lower doc) ''annual enhancement fee''")
    case None
    then show ?thesis using current by (simp add: replace_enhancement_fee_text_def)
  next
    case (Some fee_pos)
    define generic where "generic =
      ((contains (py_lower (slice doc (fee_pos - 50) (fee_pos + 400))) ''applies'' \<and>
        contains (py_lower (slice doc (fee_pos - 50) (fee_pos + 400))) ''annual enhancement fee'') \<and>
       \<not> (contains (slice doc (fee_pos - 50) (fee_pos + 400)) ''$49.99'' \<or>
          contains (slice doc (fee_pos - 50) (fee_pos + 400)) ''$89.98'' \<or>
          contains (slice doc (fee_pos - 50) (fee_pos + 400)) ''$2.99''))"
    define an_pos where "an_pos =
      (case find_from (fee_pos - 50) ''an annual enhancement fee applies''
              (drop (fee_pos - 50) (py_lower doc)) of
         Some p \<Rightarrow> p | None \<Rightarrow> fee_pos)"
    have r: "replace_enhancement_fee_text doc =
      (if generic then (True, splice doc (generic_start doc an_pos) (generic_end doc an_pos))
       else if \<not> old_amount_near doc fee_pos then (False, doc)
       else (case legacy_end doc fee_pos of
               None \<Rightarrow> (False, doc)
             | Some ep \<Rightarrow> (True, splice doc (legacy_start doc fee_pos) ep)))"
      unfolding replace_enhancement_fee_text_def Let_def generic_def an_pos_def
      using current Some by (simp only: if_False option.case)
    show ?thesis
    proof (cases generic)
      case True
      then have "replace_enhancement_fee_text doc =
        (True, splice doc (generic_start doc an_pos) (generic_end doc an_pos))"
        using r by simp
      then show ?thesis by blast
    next
      case ng: False
      show ?thesis
      proof (cases "old_amount_near doc fee_pos")
        case False
        then show ?thesis using r ng by simp
      next
        case True
        show ?thesis
        proof (cases "legacy_end doc fee_pos")
          case None
          then show ?thesis using r ng True by simp
        next
          case (Some ep)
          then have "replace_enhancement_fee_text doc =
            (True, splice doc (legacy_start doc fee_pos) ep)"
            using r ng True by simp
          then show ?thesis by blast
        qed
      qed
    qed
  qed
qed

lemma replace_enhancement_fee_text_current:
  "contains doc ''$49.95 for the first member'' \<Longrightarrow>
   contains doc ''$89.95 for all memberships'' \<Longrightarrow>
   replace_enhancement_fee_text doc = (True, doc)"
  by (simp add: replace_enhancement_fee_text_def)

text \<open>
  C1: applying \<open>replace_enhancement_fee_text\<close> twice leaves the same text as applying
  it once, for every document; after a call that reports success the second call reports
  success and changes nothing; and a document that already contains both signature
  substrings of the new text is reported as a success and left as it is.
\<close>

theorem replace_enhancement_fee_text_idempotent:
  "snd (replace_enhancement_fee_text (snd (replace_enhancement_fee_text doc))) =
     snd (replace_enhancement_fee_text doc) \<and>
   (fst (replace_enhancement_fee_text doc) \<longrightarrow>
      replace_enhancement_fee_text (snd (replace_enhancement_fee_text doc)) =
        (True, snd (replace_enhancement_fee_text doc))) \<and>
   (contains doc ''$49.95 for the first member'' \<and> contains doc ''$89.95 for all memberships'' \<longrightarrow>
      replace_enhancement_fee_text doc = (True, doc))"
proof -
  consider
    (unchanged) "replace_enhancement_fee_text doc = (False, doc)"
  | (current) "replace_enhancement_fee_text doc = (True, doc)"
      "contains doc ''$49.95 for the first member''" "contains doc ''$89.95 for all memberships''"
  | (spliced) st ep where "replace_enhancement_fee_text doc = (True, splice doc st ep)"
    using replace_enhancement_fee_text_shape[of doc] by blast
  then have "snd (replace_enhancement_fee_text (snd (replace_enhancement_fee_text doc))) =
     snd (replace_enhancement_fee_text doc) \<and>
   (fst (replace_enhancement_fee_text doc) \<longrightarrow>
      replace_enhancement_fee_text (snd (replace_enhancement_fee_text doc)) =
        (True, snd (replace_enhancement_fee_text doc)))"
  proof cases
    case unchanged
    then show ?thesis by simp
  next
    case current
    then show ?thesis by simp
  next
    case spliced
    have "replace_enhancement_fee_text (splice doc st ep) = (True, splice doc st ep)"
      by (rule replace_enhancement_fee_text_current) (rule splice_signatures)+
    then show ?thesis using spliced by simp
  qed
  then show ?thesis using replace_enhancement_fee_text_current[of doc] by blast
qed

text \<open>The theorem at a document that is already current.\<close>

theorem replace_enhancement_fee_text_idempotent_witness:
  "contains ''Fee: $49.95 for the first member, $89.95 for all memberships.'' ''$49.95 for the first member'' \<and>
   contains ''Fee: $49.95 for the first member, $89.95 for all memberships.'' ''$89.95 for all memberships'' \<and>
   replace_enhancement_fee_text ''Fee: $49.95 for the first member, $89.95 for all memberships.'' =
     (True, ''Fee: $49.95 for the first member, $89.95 for all memberships.'') \<and>
   replace_enhancement_fee_text
     (snd (replace_enhancement_fee_text ''Fee: $49.95 for the first member, $89.95 for all memberships.'')) =
     (True, snd (replace_enhancement_fee_text ''Fee: $49.95 for the first member, $89.95 for all memberships.''))"
proof -
  have h1: "contains ''Fee: $49.95 for the first member, $89.95 for all memberships.'' ''$49.95 for the first member''"
    by code_simp
  have h2: "contains ''Fee: $49.95 for the first member, $89.95 for all memberships.'' ''$89.95 for all memberships''"
    by code_simp
  note t = replace_enhancement_fee_text_idempotent
             [of "''Fee: $49.95 for the first member, $89.95 for all memberships.''"]
  have r: "replace_enhancement_fee_text ''Fee: $49.95 for the first member, $89.95 for all memberships.'' =
     (True, ''Fee: $49.95 for the first member, $89.95 for all memberships.'')"
    using t h1 h2 by blast
  then have "fst (replace_enhancement_fee_text ''Fee: $49.95 for the first member, $89.95 for all memberships.'')"
    by simp
  then have "replace_enhancement_fee_text
     (snd (replace_enhancement_fee_text ''Fee: $49.95 for the first member, $89.95 for all memberships.'')) =
     (True, snd (replace_enhancement_fee_text ''Fee: $49.95 for the first member, $89.95 for all memberships.''))"
    using t by blast
  then show ?thesis using h1 h2 r by blast
qed

text \<open>
  When the first candidate span holds the card-fee clause, the trailer after it is kept:
  it is appended to the new text after a blank line.
\<close>

lemma trailer_kept_after_card_fee:
  "replace_enhancement_fee_text
     ''Annual Enhancement Fee of $49.99 applies, plus a $2.99 credit card fee. Other terms and conditions apply. [Click here](http://x)\<newline>\<newline>## Cafe'' =
   (True, new_enhancement_fee_text @
          ''\<newline>\<newline>Other terms and conditions apply. [Click here](http://x)\<newline>\<newline>## Cafe'')"
proof -
  let ?doc = "''Annual Enhancement Fee of $49.99 applies, plus a $2.99 credit card fee. Other terms and conditions apply. [Click here](http://x)\<newline>\<newline>## Cafe''"
  have current: "\<not> contains ?doc ''$49.95 for the first member''"
    by code_simp
  have anchor: "py_find (py_lower ?doc) ''annual enhancement fee'' = Some 0"
    by code_simp
  have amounts: "contains (slice ?doc (0 - 50) (0 + 400)) ''$49.99''"
    by code_simp
  have near: "old_amount_near ?doc 0"
    by code_simp
  have start: "legacy_start ?doc 0 = 0"
    by code_simp
  have "end": "legacy_end ?doc 0 =
      Some (128, ''\<newline>\<newline>Other terms and conditions apply. [Click here](http://x)'')"
    by code_simp
  have spliced: "splice ?doc 0 (128, ''\<newline>\<newline>Other terms and conditions apply. [Click here](http://x)'') =
      new_enhancement_fee_text @
          ''\<newline>\<newline>Other terms and conditions apply. [Click here](http://x)\<newline>\<newline>## Cafe''"
    by (simp add: splice_def)
  have "replace_enhancement_fee_text ?doc =
      (True, splice ?doc 0 (128, ''\<newline>\<newline>Other terms and conditions apply. [Click here](http://x)''))"
    unfolding replace_enhancement_fee_text_def Let_def
    by (simp only: current anchor amounts near start "end" simp_thms if_True if_False option.case)
  then show ?thesis by (simp only: spliced)
qed

text \<open>
  C2 at a legacy document whose disclaimer sentence is followed by the trailer and whose
  only \<open>$2.99\<close> stands in a later section: the first candidate span lacks the card-fee
  clause, the extended span runs over the trailer to the end of the text, and the text
  written back is the new disclaimer alone, without the trailer.
\<close>

theorem replace_enhancement_fee_text_drops_trailer:
  "replace_enhancement_fee_text
     ''Annual Enhancement Fee of $49.99 applies. Other terms and conditions apply. [Click here](http://x)\<newline>\<newline>## Cafe\<newline>Smoothie: $2.99'' =
     (True, new_enhancement_fee_text) \<and>
   \<not> contains new_enhancement_fee_text ''Other terms and conditions apply'' \<and>
   \<not> contains new_enhancement_fee_text ''[Click here](http://x)''"
proof -
  let ?doc = "''Annual Enhancement Fee of $49.99 applies. Other terms and conditions apply. [Click here](http://x)\<newline>\<newline>## Cafe\<newline>Smoothie: $2.99''"
  have current: "\<not> contains ?doc ''$49.95 for the first member''"
    by code_simp
  have anchor: "py_find (py_lower ?doc) ''annual enhancement fee'' = Some 0"
    by code_simp
  have amounts: "contains (slice ?doc (0 - 50) (0 + 400)) ''$49.99''"
    by code_simp
  have near: "old_amount_near ?doc 0"
    by code_simp
  have start: "legacy_start ?doc 0 = 0"
    by code_simp
  have "end": "legacy_end ?doc 0 = Some (123, [])"
    by code_simp
  have spliced: "splice ?doc 0 (123, []) = new_enhancement_fee_text"
    by (simp add: splice_def)
  have "replace_enhancement_fee_text ?doc = (True, splice ?doc 0 (123, []))"
    unfolding replace_enhancement_fee_text_def Let_def
    by (simp only: current anchor amounts near start "end" simp_thms if_True if_False option.case)
  then have 1: "replace_enhancement_fee_text ?doc = (True, new_enhancement_fee_text)"
    by (simp only: spliced)
  have 2: "\<not> contains new_enhancement_fee_text ''Other terms and conditions apply''"
    by code_simp
  have 3: "\<not> contains new_enhancement_fee_text ''[Click here](http://x)''"
    by code_simp
  show ?thesis using 1 2 3 by blast
qed

text \<open>The same run, read off its two results: success is reported and the text is the new disclaimer.\<close>

theorem replace_enhancement_fee_text_drops_trailer_witness:
  "fst (replace_enhancement_fee_text
     ''Annual Enhancement Fee of $49.99 applies. Other terms and conditions apply. [Click here](http://x)\<newline>\<newline>## Cafe\<newline>Smoothie: $2.99'') \<and>
   snd (replace_enhancement_fee_text
     ''Annual Enhancement Fee of $49.99 applies. Other terms and conditions apply. [Click here](http://x)\<newline>\<newline>## Cafe\<newline>Smoothie: $2.99'') =
     new_enhancement_fee_text"
  using replace_enhancement_fee_text_drops_trailer by simp

end
